theory Spec2Isabelle
  imports Main "HOL-Library.Multiset"
begin

section \<open>Python values used by the stock manager\<close>

text \<open>
  A Python \<open>str\<close> is modelled as a \<open>string\<close> whose characters are code points below 256
  (so \<open>CHR 0xE9\<close> is the letter e with an acute accent).  What the program writes with
  \<open>print\<close> and \<open>logging\<close> is returned by each operation as a list of \<open>sortie\<close> values, in
  the order of emission; only the level and the message of a log record are kept (the
  time stamp added by the logging format is not).  The conversion \<open>int(s)\<close> and the
  volume of an identifier are defined on lists of code points of any range.
\<close>

datatype sortie =
    Print string
  | Log_warning string
  | Log_error string

text \<open>\<open>str.isspace\<close> on one character, for code points below 256.\<close>

definition py_isspace :: "char \<Rightarrow> bool" where
  "py_isspace c = (c \<in> set
     [CHR 0x09, CHR 0x0A, CHR 0x0B, CHR 0x0C, CHR 0x0D, CHR 0x1C, CHR 0x1D, CHR 0x1E,
      CHR 0x1F, CHR 0x20, CHR 0x85, CHR 0xA0])"

text \<open>\<open>texte.replace(',', ' ')\<close>.\<close>

definition remplacer_virgules :: "string \<Rightarrow> string" where
  "remplacer_virgules texte = map (\<lambda>c. if c = CHR '','' then CHR '' '' else c) texte"

text \<open>
  \<open>str.split()\<close> without argument: the maximal runs of characters that are not white
  space.  \<open>decouper mot s\<close> scans \<open>s\<close> with the word read so far in \<open>mot\<close>.
\<close>

fun decouper :: "string \<Rightarrow> string \<Rightarrow> string list" where
  "decouper mot [] = (if mot = [] then [] else [mot])"
| "decouper mot (c # cs) =
     (if py_isspace c
      then (if mot = [] then decouper [] cs else mot # decouper [] cs)
      else decouper (mot @ [c]) cs)"

definition py_split :: "string \<Rightarrow> string list" where
  "py_split s = decouper [] s"

text \<open>\<open>str.strip()\<close> without argument.\<close>

definition py_strip :: "string \<Rightarrow> string" where
  "py_strip s = rev (dropWhile py_isspace (rev (dropWhile py_isspace s)))"

text \<open>\<open>str(n)\<close> for an integer, as the f-strings of the program format it.\<close>

definition chiffre :: "nat \<Rightarrow> char" where
  "chiffre d = char_of (48 + d)"

function str_nat :: "nat \<Rightarrow> string" where
  "str_nat n = (if n < 10 then [chiffre n] else str_nat (n div 10) @ [chiffre (n mod 10)])"
  by pat_completeness auto
termination
  by (relation "measure id") auto

declare str_nat.simps [simp del]

definition str_int :: "int \<Rightarrow> string" where
  "str_int i = (if i < 0 then CHR ''-'' # str_nat (nat (- i)) else str_nat (nat i))"

text \<open>
  \<open>int(s)\<close> on a \<open>str\<close>, base 10, on the code points of the string.  CPython first
  rewrites the string to ASCII (\<open>_PyUnicode_TransformDecimalAndSpaceToASCII\<close>): a string
  of ASCII code points only is kept as it is; otherwise a code point below 127 is kept,
  a Unicode white space becomes a space, a Unicode decimal digit becomes the ASCII
  digit of its value, and the first code point of another kind becomes a question mark
  and ends the buffer.  The two tables of the Unicode database are parameters: \<open>esp\<close>
  tells the white space, \<open>dec\<close> gives the value, from 0 to 9, of a decimal digit.
\<close>

fun transformer :: "(nat \<Rightarrow> bool) \<Rightarrow> (nat \<Rightarrow> nat option) \<Rightarrow> nat list \<Rightarrow> nat list" where
  "transformer esp dec [] = []"
| "transformer esp dec (c # cs) =
     (if c < 127 then c # transformer esp dec cs
      else if esp c then 32 # transformer esp dec cs
      else (case dec c of None \<Rightarrow> [63] | Some d \<Rightarrow> (48 + d) # transformer esp dec cs))"

definition transformer_ascii ::
  "(nat \<Rightarrow> bool) \<Rightarrow> (nat \<Rightarrow> nat option) \<Rightarrow> nat list \<Rightarrow> nat list" where
  "transformer_ascii esp dec cs =
     (if list_all (\<lambda>c. c < 128) cs then cs else transformer esp dec cs)"

text \<open>
  Then \<open>PyLong_FromString\<close> reads the ASCII buffer: white space of the C locale (code
  points 9 to 13 and 32, which leaves out 28 to 31) around the literal is skipped, one
  sign is allowed, then come decimal digits, with single underscores allowed between
  digits, and the whole buffer must have been read.  \<open>None\<close> stands for \<open>ValueError\<close>.
  CPython also raises \<open>ValueError\<close> when the literal has more digits than
  \<open>sys.get_int_max_str_digits()\<close>, 4300 by default.
\<close>

definition ascii_isspace :: "nat \<Rightarrow> bool" where
  "ascii_isspace c = (c \<in> set [9, 10, 11, 12, 13, 32])"

definition chiffre_ascii :: "nat \<Rightarrow> bool" where
  "chiffre_ascii c = (48 \<le> c \<and> c \<le> 57)"

definition valeur_decimale :: "nat list \<Rightarrow> nat" where
  "valeur_decimale cs = foldl (\<lambda>acc c. 10 * acc + (c - 48)) 0 cs"

text \<open>
  \<open>corps_valide prec cs\<close>: the digits and underscores \<open>cs\<close> are well placed after the
  code point \<open>prec\<close> (\<open>None\<close> at the start of the literal): an underscore (95) stands
  only between two digits, and the literal is not empty.
\<close>

fun corps_valide :: "nat option \<Rightarrow> nat list \<Rightarrow> bool" where
  "corps_valide prec [] = (case prec of None \<Rightarrow> False | Some p \<Rightarrow> p \<noteq> 95)"
| "corps_valide prec (c # cs) =
     (if c = 95
      then (case prec of None \<Rightarrow> False | Some p \<Rightarrow> p \<noteq> 95) \<and> corps_valide (Some c) cs
      else chiffre_ascii c \<and> corps_valide (Some c) cs)"

definition int_max_str_digits :: nat where
  "int_max_str_digits = 4300"

definition strip_ascii :: "nat list \<Rightarrow> nat list" where
  "strip_ascii s = rev (dropWhile ascii_isspace (rev (dropWhile ascii_isspace s)))"

text \<open>The signs are the code points 43 and 45.\<close>

definition analyser_entier :: "nat list \<Rightarrow> int option" where
  "analyser_entier s =
     (let t = strip_ascii s;
          negatif = (case t of [] \<Rightarrow> False | c # _ \<Rightarrow> c = 45);
          corps = (case t of [] \<Rightarrow> []
                   | c # r \<Rightarrow> if c = 43 \<or> c = 45 then r else t);
          chiffres = filter chiffre_ascii corps
      in if corps_valide None corps \<and> length chiffres \<le> int_max_str_digits
         then Some (if negatif then - int (valeur_decimale chiffres)
                    else int (valeur_decimale chiffres))
         else None)"

definition py_int :: "(nat \<Rightarrow> bool) \<Rightarrow> (nat \<Rightarrow> nat option) \<Rightarrow> nat list \<Rightarrow> int option" where
  "py_int esp dec cs = analyser_entier (transformer_ascii esp dec cs)"

text \<open>
  The code points of a string of the model, and the two Unicode tables on the code
  points from 127 to 255: the white space there is 133 and 160, and there is no decimal
  digit.
\<close>

definition points :: "string \<Rightarrow> nat list" where
  "points s = map of_char s"

definition latin1_isspace :: "nat \<Rightarrow> bool" where
  "latin1_isspace c = (c = 133 \<or> c = 160)"

definition latin1_todecimal :: "nat \<Rightarrow> nat option" where
  "latin1_todecimal c = None"

text \<open>
  \<open>list.sort(key=f, reverse=True)\<close>: CPython reverses the list, sorts it with its stable
  ascending sort and reverses the result, so that elements with equal keys keep their
  original order.
\<close>

definition py_sort_reverse :: "('a \<Rightarrow> int) \<Rightarrow> 'a list \<Rightarrow> 'a list" where
  "py_sort_reverse f xs = rev (sort_key f (rev xs))"

text \<open>
  \<open>Counter(demandes)\<close>: a dictionary in insertion order, from each element to its
  number of occurrences.
\<close>

fun counter_incr :: "(string \<times> int) list \<Rightarrow> string \<Rightarrow> (string \<times> int) list" where
  "counter_incr [] p = [(p, 1)]"
| "counter_incr ((k, v) # kvs) p =
     (if k = p then (k, v + 1) # kvs else (k, v) # counter_incr kvs p)"

definition Counter :: "string list \<Rightarrow> (string \<times> int) list" where
  "Counter elems = foldl counter_incr [] elems"


section \<open>SystemeAlerte: the circular buffer of three alerts\<close>

record systeme_alerte =
  historique :: "string option list"
  index_ecr :: nat

definition systeme_alerte_init :: systeme_alerte where
  "systeme_alerte_init = \<lparr>historique = replicate 3 None, index_ecr = 0\<rparr>"

definition noter :: "systeme_alerte \<Rightarrow> string \<Rightarrow> sortie list \<times> systeme_alerte" where
  "noter a message =
     ([Log_warning message],
      \<lparr>historique = (historique a)[index_ecr a := Some message],
       index_ecr = (index_ecr a + 1) mod 3\<rparr>)"

definition pas_d_alerte :: string where
  "pas_d_alerte = ''Pas d'alerte.''"

text \<open>
  \<open>etat a i\<close> is the text shown in the slot of rank \<open>i\<close> (from 0) of the panel;
  \<open>rendu\<close> is \<open>msg if msg else "Pas d'alerte."\<close>, where \<open>None\<close> and the empty string are
  both false.
\<close>

definition rendu :: "string option \<Rightarrow> string" where
  "rendu msg = (case msg of None \<Rightarrow> pas_d_alerte
                | Some m \<Rightarrow> if m \<noteq> [] then m else pas_d_alerte)"

definition etat :: "systeme_alerte \<Rightarrow> nat \<Rightarrow> string" where
  "etat a i =
     (let pos = (index_ecr a + i) mod 3;
          msg = historique a ! pos
      in rendu msg)"

definition afficher_tout :: "systeme_alerte \<Rightarrow> sortie list" where
  "afficher_tout a =
     Print (CHR 0x0A # ''--- PANNEAU D'ALERTES ---'') #
     map (\<lambda>i. Print (''Slot '' @ str_nat (i + 1) @ '' : '' @ etat a i)) [0..<3]"

text \<open>
  The buffer is created with three slots and the cursor is only ever set to a value
  modulo 3, so that no index is out of range in a state of the program.
\<close>

definition alerte_ok :: "systeme_alerte \<Rightarrow> bool" where
  "alerte_ok a = (length (historique a) = 3 \<and> index_ecr a < 3)"

text \<open>Recording a sequence of messages, and the three texts the panel then shows.\<close>

definition noter_tous :: "systeme_alerte \<Rightarrow> string list \<Rightarrow> systeme_alerte" where
  "noter_tous a messages = foldl (\<lambda>b m. snd (noter b m)) a messages"

definition panneau :: "systeme_alerte \<Rightarrow> string list" where
  "panneau a = map (etat a) [0..<3]"

text \<open>The three slots in the order of the panel, before they are rendered.\<close>

definition fenetre :: "systeme_alerte \<Rightarrow> string option list" where
  "fenetre a = map (\<lambda>i. historique a ! ((index_ecr a + i) mod 3)) [0..<3]"


section \<open>Inventaire: physical queues and signed ledger\<close>

text \<open>
  \<open>files\<close> is the dictionary from a product to its queue (a \<open>deque\<close>, oldest unit first),
  \<open>comptes\<close> the \<open>Counter\<close> of the ledger, \<open>alerteur\<close> the alert system the inventory
  notifies.
\<close>

record inventaire =
  files :: "string \<rightharpoonup> string list"
  comptes :: "string \<rightharpoonup> int"
  alerteur :: systeme_alerte

definition inventaire_init :: "systeme_alerte \<Rightarrow> inventaire" where
  "inventaire_init a = \<lparr>files = Map.empty, comptes = Map.empty, alerteur = a\<rparr>"

text \<open>\<open>Counter.__getitem__\<close>: a missing key reads as 0 and is not inserted.\<close>

definition counter_get :: "(string \<rightharpoonup> int) \<Rightarrow> string \<Rightarrow> int" where
  "counter_get c k = (case c k of None \<Rightarrow> 0 | Some v \<Rightarrow> v)"

definition ajouter :: "inventaire \<Rightarrow> string \<Rightarrow> inventaire" where
  "ajouter stock produit =
     (let f1 = (if produit \<notin> dom (files stock) then (files stock)(produit \<mapsto> []) else files stock);
          f2 = f1(produit \<mapsto> the (f1 produit) @ [produit])
      in stock\<lparr>files := f2,
             comptes := (comptes stock)(produit \<mapsto> counter_get (comptes stock) produit + 1)\<rparr>)"

text \<open>The read returns the state as well, so that its absence of effect is a statement.\<close>

definition quantite_comptable :: "inventaire \<Rightarrow> string \<Rightarrow> int \<times> inventaire" where
  "quantite_comptable stock produit = (counter_get (comptes stock) produit, stock)"

text \<open>The f-string of \<open>_verifier_seuil\<close>.\<close>

definition message_seuil :: "string \<Rightarrow> int \<Rightarrow> string" where
  "message_seuil produit restant =
     ''ALERTE: Stock faible '' @ produit @ '' (Reste: '' @ str_int restant @ '')''"

definition verifier_seuil :: "inventaire \<Rightarrow> string \<Rightarrow> sortie list \<times> inventaire" where
  "verifier_seuil stock produit =
     (let restant = counter_get (comptes stock) produit
      in if restant < 2
         then (let msg = message_seuil produit restant;
                   (s, a) = noter (alerteur stock) msg
               in (s, stock\<lparr>alerteur := a\<rparr>))
         else ([], stock))"

definition signaler_rupture :: "string \<Rightarrow> sortie list" where
  "signaler_rupture produit =
     [Print (''!!! RUPTURE : '' @ produit @ '' mis en dette (Backorder).''),
      Log_error (''Dette cr'' @ [CHR 0xE9, CHR 0xE9] @ ''e sur '' @ produit)]"

text \<open>
  \<open>sortir\<close> returns the unit (\<open>None\<close> when there is none), what it wrote, and the new
  state.  A \<open>deque\<close> is true when it is not empty.
\<close>

definition sortir :: "inventaire \<Rightarrow> string \<Rightarrow> string option \<times> sortie list \<times> inventaire" where
  "sortir stock produit =
     (let stock1 = stock\<lparr>comptes := (comptes stock)(produit \<mapsto> counter_get (comptes stock) produit - 1)\<rparr>;
          file_prod = files stock1 produit;
          (item, stock2) =
             (case file_prod of
                None \<Rightarrow> (None, stock1)
              | Some [] \<Rightarrow> (None, stock1)
              | Some (u # reste) \<Rightarrow> (Some u, stock1\<lparr>files := (files stock1)(produit \<mapsto> reste)\<rparr>));
          (s1, stock3) = verifier_seuil stock2 produit;
          s2 = (if item = None then signaler_rupture produit else [])
      in (item, s1 @ s2, stock3))"


section \<open>GestionnaireCommandes: the facade\<close>

text \<open>
  The manager holds one alert system and one inventory, and the inventory holds the same
  alert system object; the model keeps that object once, in the inventory.
\<close>

record gestionnaire =
  inventaire :: inventaire

definition parser :: "string \<Rightarrow> string list" where
  "parser texte =
     (if texte = [] then []
      else (let nettoye = remplacer_virgules texte
            in map py_strip (filter (\<lambda>x. py_strip x \<noteq> []) (py_split nettoye))))"

text \<open>
  \<open>_extraire_vol\<close>, on the code points of an identifier and for any Unicode tables;
  \<open>nom_produit[1:]\<close> is a slice and never raises.  \<open>extraire_vol\<close> is the same function
  on the strings of the model.
\<close>

definition extraire_vol_points ::
  "(nat \<Rightarrow> bool) \<Rightarrow> (nat \<Rightarrow> nat option) \<Rightarrow> nat list \<Rightarrow> int" where
  "extraire_vol_points esp dec nom_produit =
     (case py_int esp dec (drop 1 nom_produit) of Some v \<Rightarrow> v | None \<Rightarrow> 0)"

definition extraire_vol :: "string \<Rightarrow> int" where
  "extraire_vol nom_produit =
     extraire_vol_points latin1_isspace latin1_todecimal (points nom_produit)"

definition trier_par_volume :: "string list \<Rightarrow> string list" where
  "trier_par_volume produits = py_sort_reverse extraire_vol produits"

definition traiter_arrivage :: "gestionnaire \<Rightarrow> string \<Rightarrow> sortie list \<times> gestionnaire" where
  "traiter_arrivage g texte =
     (let produits = parser texte;
          stock = foldl ajouter (inventaire g) produits
      in ([Print (''--> Arrivage trait'' @ [CHR 0xE9] @ '' : '' @
                  str_nat (length produits) @ '' produits.'')],
          g\<lparr>inventaire := stock\<rparr>))"

definition gestionnaire_init :: "string option \<Rightarrow> sortie list \<times> gestionnaire" where
  "gestionnaire_init arrivage_init =
     (let g = \<lparr>inventaire = inventaire_init systeme_alerte_init\<rparr>
      in case arrivage_init of
           None \<Rightarrow> ([], g)
         | Some texte \<Rightarrow> if texte \<noteq> [] then traiter_arrivage g texte else ([], g))"

text \<open>
  The loop of \<open>_verifier_faisabilite\<close> over \<open>besoins.items()\<close>: it goes through every
  product, also after a shortage was found.
\<close>

fun faisabilite_boucle ::
  "inventaire \<Rightarrow> (string \<times> int) list \<Rightarrow> bool \<Rightarrow> bool \<times> sortie list \<times> inventaire" where
  "faisabilite_boucle stock [] possible = (possible, [], stock)"
| "faisabilite_boucle stock ((produit, qte) # besoins) possible =
     (let (q, stock1) = quantite_comptable stock produit
      in if q < qte
         then (let (r, s, stock2) = faisabilite_boucle stock1 besoins False
               in (r, Print (''Manque '' @ produit @ '' (Requis: '' @ str_int qte @ '')'') # s,
                   stock2))
         else faisabilite_boucle stock1 besoins possible)"

definition verifier_faisabilite ::
  "inventaire \<Rightarrow> string list \<Rightarrow> bool \<times> sortie list \<times> inventaire" where
  "verifier_faisabilite stock demandes = faisabilite_boucle stock (Counter demandes) True"

text \<open>
  The loop of \<open>_assembler_colis\<close>: \<open>colis_brut\<close> is the raw package in dispatch order;
  \<open>if item\<close> drops \<open>None\<close> and the empty string.
\<close>

fun colis_brut ::
  "inventaire \<Rightarrow> string list \<Rightarrow> string list \<times> sortie list \<times> inventaire" where
  "colis_brut stock [] = ([], [], stock)"
| "colis_brut stock (produit # demandes) =
     (let (item, s1, stock1) = sortir stock produit;
          (colis, s2, stock2) = colis_brut stock1 demandes
      in ((case item of None \<Rightarrow> colis | Some u \<Rightarrow> if u \<noteq> [] then u # colis else colis),
          s1 @ s2, stock2))"

text \<open>
  The values returned by the successive calls of \<open>sortir\<close> in that loop, one for each
  demanded item.
\<close>

fun retours :: "inventaire \<Rightarrow> string list \<Rightarrow> string option list" where
  "retours stock [] = []"
| "retours stock (produit # demandes) =
     (let (item, s1, stock1) = sortir stock produit
      in item # retours stock1 demandes)"

definition assembler_colis ::
  "inventaire \<Rightarrow> string list \<Rightarrow> string list \<times> sortie list \<times> inventaire" where
  "assembler_colis stock demandes =
     (let (brut, s, stock1) = colis_brut stock demandes
      in (trier_par_volume brut, s, stock1))"

definition commande_annulee :: sortie where
  "commande_annulee = Print ''!!! COMMANDE ANNULEE : Stock insuffisant.''"

definition traiter_commande ::
  "gestionnaire \<Rightarrow> string \<Rightarrow> bool \<Rightarrow> string list \<times> sortie list \<times> gestionnaire" where
  "traiter_commande g texte strict =
     (let demandes = parser texte;
          (faisable, s0, stock0) =
             (if strict then verifier_faisabilite (inventaire g) demandes
              else (True, [], inventaire g))
      in if strict \<and> \<not> faisable
         then ([], s0 @ [commande_annulee], g\<lparr>inventaire := stock0\<rparr>)
         else (let (colis, s1, stock1) = assembler_colis stock0 demandes
               in (colis, s0 @ s1, g\<lparr>inventaire := stock1\<rparr>)))"

definition afficher_etat :: "gestionnaire \<Rightarrow> sortie list" where
  "afficher_etat g = afficher_tout (alerteur (inventaire g))"


section \<open>Sequences of calls\<close>

text \<open>A call of the inventory, and the state after a sequence of calls.\<close>

datatype appel = Ajouter string | Sortir string

fun appliquer :: "inventaire \<Rightarrow> appel \<Rightarrow> inventaire" where
  "appliquer stock (Ajouter p) = ajouter stock p"
| "appliquer stock (Sortir p) = snd (snd (sortir stock p))"

definition derouler :: "inventaire \<Rightarrow> appel list \<Rightarrow> inventaire" where
  "derouler stock appels = foldl appliquer stock appels"

definition inventaire_neuf :: inventaire where
  "inventaire_neuf = inventaire_init systeme_alerte_init"

definition ledger :: "inventaire \<Rightarrow> string \<Rightarrow> int" where
  "ledger stock p = fst (quantite_comptable stock p)"

definition longueur_file :: "inventaire \<Rightarrow> string \<Rightarrow> nat" where
  "longueur_file stock p = (case files stock p of None \<Rightarrow> 0 | Some q \<Rightarrow> length q)"

text \<open>A public operation of the manager, and the state after a sequence of them.\<close>

datatype operation =
    Recevoir_arrivage string
  | Passer_commande string bool
  | Afficher_etat

fun executer :: "gestionnaire \<Rightarrow> operation \<Rightarrow> gestionnaire" where
  "executer g (Recevoir_arrivage texte) = snd (traiter_arrivage g texte)"
| "executer g (Passer_commande texte strict) = snd (snd (traiter_commande g texte strict))"
| "executer g Afficher_etat = g"

definition etat_apres :: "string option \<Rightarrow> operation list \<Rightarrow> gestionnaire" where
  "etat_apres arrivage_init ops = foldl executer (snd (gestionnaire_init arrivage_init)) ops"


text \<open>
  The invariant of the stock used in the proofs: every unit in the queue of a product
  is the identifier of that product, and the ledger count of a product is at most the
  length of its queue.
\<close>

definition coherent :: "inventaire \<Rightarrow> bool" where
  "coherent stock =
     ((\<forall>p q. files stock p = Some q \<longrightarrow> set q \<subseteq> {p})
      \<and> (\<forall>p. ledger stock p \<le> int (longueur_file stock p)))"


section \<open>The volume as the specification words it\<close>

text \<open>
  The specification's data model describes the volume as the integer written by the
  trailing digits of the identifier, 0 when there are none.
\<close>

definition chiffres_finaux :: "nat list \<Rightarrow> nat list" where
  "chiffres_finaux t = rev (takeWhile chiffre_ascii (rev t))"

definition volume_selon_spec :: "nat list \<Rightarrow> int" where
  "volume_selon_spec t = int (valeur_decimale (chiffres_finaux t))"

text \<open>
  The specification's volume extraction parses all characters after the first as an
  integer.  \<open>litteral_entier a v\<close> says that the ASCII buffer \<open>a\<close> is an integer literal
  of value \<open>v\<close>: white space, at most one sign, one or more non-empty groups of
  decimal digits joined by single underscores, white space; and no more digits than
  the limit of the interpreter.
\<close>

fun joindre :: "nat list list \<Rightarrow> nat list" where
  "joindre [] = []"
| "joindre [g] = g"
| "joindre (g # h # gs) = g @ 95 # joindre (h # gs)"

definition litteral_entier :: "nat list \<Rightarrow> int \<Rightarrow> bool" where
  "litteral_entier a v =
     (\<exists>e1 s gs e2.
        a = e1 @ s @ joindre gs @ e2
      \<and> (\<forall>c\<in>set e1. ascii_isspace c) \<and> (\<forall>c\<in>set e2. ascii_isspace c)
      \<and> (s = [] \<or> s = [43] \<or> s = [45])
      \<and> gs \<noteq> [] \<and> (\<forall>g\<in>set gs. g \<noteq> [] \<and> (\<forall>c\<in>set g. chiffre_ascii c))
      \<and> length (concat gs) \<le> int_max_str_digits
      \<and> v = (if s = [45] then - int (valeur_decimale (concat gs))
             else int (valeur_decimale (concat gs))))"


section \<open>The alert buffer\<close>

lemma upt_0_3: "[0..<3] = [0, Suc 0, 2]"
  by (simp add: upt_rec)

lemma alerte_ok_init: "alerte_ok systeme_alerte_init"
  by (simp add: alerte_ok_def systeme_alerte_init_def)

lemma alerte_ok_noter: "alerte_ok a \<Longrightarrow> alerte_ok (snd (noter a m))"
  by (simp add: alerte_ok_def noter_def)

lemma length3_cases:
  assumes "length xs = 3"
  obtains x y z where "xs = [x, y, z]"
proof -
  from assms obtain x r1 where "xs = x # r1" "length r1 = 2" by (cases xs) auto
  moreover then obtain y r2 where "r1 = y # r2" "length r2 = 1" by (cases r1) auto
  moreover then obtain z where "r2 = [z]" by (cases r2) auto
  ultimately show ?thesis using that by simp
qed

lemma fenetre_noter:
  assumes "alerte_ok a"
  shows "fenetre (snd (noter a m)) = tl (fenetre a) @ [Some m]"
proof -
  from assms have len: "length (historique a) = 3" and idx: "index_ecr a < 3"
    by (simp_all add: alerte_ok_def)
  from len obtain x y z where h: "historique a = [x, y, z]" by (rule length3_cases)
  from idx consider "index_ecr a = 0" | "index_ecr a = 1" | "index_ecr a = 2" by linarith
  then show ?thesis
    by cases (simp_all add: fenetre_def noter_def h upt_0_3)
qed

lemma length_fenetre: "length (fenetre a) = 3"
  by (simp add: fenetre_def)

lemma alerte_ok_noter_tous: "alerte_ok a \<Longrightarrow> alerte_ok (noter_tous a ms)"
  unfolding noter_tous_def
  by (induction ms arbitrary: a) (simp_all add: alerte_ok_noter)

lemma fenetre_noter_tous:
  "alerte_ok a \<Longrightarrow> fenetre (noter_tous a ms) = drop (length ms) (fenetre a @ map Some ms)"
proof (induction ms arbitrary: a)
  case Nil
  then show ?case by (simp add: noter_tous_def)
next
  case (Cons m ms)
  have ne: "fenetre a \<noteq> []" using length_fenetre [of a] by auto
  have unfold: "noter_tous a (m # ms) = noter_tous (snd (noter a m)) ms"
    by (simp add: noter_tous_def)
  have shift: "fenetre (snd (noter a m)) @ map Some ms = tl (fenetre a @ map Some (m # ms))"
    using ne by (simp add: fenetre_noter [OF Cons.prems])
  have "fenetre (noter_tous a (m # ms))
      = drop (length ms) (fenetre (snd (noter a m)) @ map Some ms)"
    unfolding unfold by (rule Cons.IH [OF alerte_ok_noter [OF Cons.prems]])
  also have "\<dots> = drop (length ms) (tl (fenetre a @ map Some (m # ms)))"
    by (simp only: shift)
  also have "\<dots> = drop (length (m # ms)) (fenetre a @ map Some (m # ms))"
    by (simp only: drop_Suc length_Cons)
  finally show ?case .
qed

lemma panneau_fenetre: "panneau a = map rendu (fenetre a)"
  by (simp add: panneau_def fenetre_def etat_def)

lemma replicate_3: "replicate 3 x = [x, x, x]"
  by (simp add: numeral_3_eq_3)

lemma fenetre_init: "fenetre systeme_alerte_init = replicate 3 None"
  by (simp add: fenetre_def systeme_alerte_init_def upt_0_3 replicate_3)

lemma rendu_Some: "m \<noteq> [] \<Longrightarrow> rendu (Some m) = m"
  by (simp add: rendu_def)

lemma map_rendu_Some: "\<forall>m\<in>set ms. m \<noteq> [] \<Longrightarrow> map rendu (map Some ms) = ms"
  by (induction ms) (simp_all add: rendu_Some)

lemma panneau_noter_tous:
  assumes "\<forall>m\<in>set ms. m \<noteq> []"
  shows "panneau (noter_tous systeme_alerte_init ms)
         = drop (length ms) (replicate 3 pas_d_alerte @ ms)"
proof -
  have "panneau (noter_tous systeme_alerte_init ms)
        = map rendu (drop (length ms) (replicate 3 None @ map Some ms))"
    by (simp add: panneau_fenetre fenetre_noter_tous [OF alerte_ok_init] fenetre_init)
  also have "\<dots> = drop (length ms) (map rendu (replicate 3 None @ map Some ms))"
    by (simp only: drop_map)
  also have "map rendu (replicate 3 None @ map Some ms) = replicate 3 (rendu None) @ ms"
    by (simp only: map_append map_replicate map_rendu_Some [OF assms])
  also have "rendu None = pas_d_alerte"
    by (simp add: rendu_def)
  finally show ?thesis .
qed

lemma afficher_tout_panneau:
  "afficher_tout a =
     Print (CHR 0x0A # ''--- PANNEAU D'ALERTES ---'') #
     map (\<lambda>(i, e). Print (''Slot '' @ str_nat i @ '' : '' @ e)) (zip [1, 2, 3] (panneau a))"
  by (simp add: afficher_tout_def panneau_def upt_0_3 numeral_2_eq_2 [symmetric])

text \<open>
  Claim C8, amended.  For every sequence of non-empty messages recorded into a new
  alert buffer: with three messages or more the panel shows exactly the last three,
  oldest first; with fewer than three it shows the sentinel \<open>Pas d'alerte.\<close> in the
  \<open>3 - k\<close> unused slots and then the \<open>k\<close> messages, oldest first.  The first slot shown
  is the one under the write cursor, and \<open>afficher_tout\<close> prints these three texts as
  \<open>Slot 1\<close> to \<open>Slot 3\<close>.
\<close>

theorem C8_snapshot_last_three:
  assumes "\<forall>m\<in>set ms. m \<noteq> []"
  shows "(3 \<le> length ms \<longrightarrow>
            panneau (noter_tous systeme_alerte_init ms) = drop (length ms - 3) ms)
       \<and> (length ms < 3 \<longrightarrow>
            panneau (noter_tous systeme_alerte_init ms)
              = replicate (3 - length ms) pas_d_alerte @ ms)
       \<and> etat (noter_tous systeme_alerte_init ms) 0
            = rendu (historique (noter_tous systeme_alerte_init ms)
                       ! index_ecr (noter_tous systeme_alerte_init ms))
       \<and> afficher_tout (noter_tous systeme_alerte_init ms) =
            Print (CHR 0x0A # ''--- PANNEAU D'ALERTES ---'') #
            map (\<lambda>(i, e). Print (''Slot '' @ str_nat i @ '' : '' @ e))
              (zip [1, 2, 3] (panneau (noter_tous systeme_alerte_init ms)))"
proof -
  let ?a = "noter_tous systeme_alerte_init ms"
  have ok: "alerte_ok ?a" by (rule alerte_ok_noter_tous [OF alerte_ok_init])
  have p: "panneau ?a = drop (length ms) (replicate 3 pas_d_alerte @ ms)"
    by (rule panneau_noter_tous [OF assms])
  have c1: "3 \<le> length ms \<longrightarrow> panneau ?a = drop (length ms - 3) ms"
    by (simp add: p)
  have c2: "length ms < 3 \<longrightarrow> panneau ?a = replicate (3 - length ms) pas_d_alerte @ ms"
    by (simp add: p)
  have c3: "etat ?a 0 = rendu (historique ?a ! index_ecr ?a)"
    using ok by (simp add: etat_def alerte_ok_def)
  show ?thesis using c1 c2 c3 afficher_tout_panneau [of ?a] by blast
qed

text \<open>Witness for C8: five messages, the panel shows the last three.\<close>

theorem C8_snapshot_witness:
  "panneau (noter_tous systeme_alerte_init [''a'', ''b'', ''c'', ''d'', ''e''])
     = [''c'', ''d'', ''e'']"
  using C8_snapshot_last_three [of "[''a'', ''b'', ''c'', ''d'', ''e'']"]
  by simp

text \<open>
  Counterexample to C8 as stated: an empty message is recorded like any other, and
  the panel shows the sentinel in its place.
\<close>

theorem C8_snapshot_counterexample:
  "panneau (noter_tous systeme_alerte_init [''a'', [], ''c'']) = [''a'', pas_d_alerte, ''c'']
   \<and> [''a'', pas_d_alerte, ''c''] \<noteq> [''a'', [], ''c'']"
proof -
  have "fenetre (noter_tous systeme_alerte_init [''a'', [], ''c''])
        = [Some ''a'', Some [], Some ''c'']"
    by (simp add: fenetre_noter_tous [OF alerte_ok_init] fenetre_init)
  then show ?thesis
    by (simp add: panneau_fenetre rendu_def pas_d_alerte_def)
qed


section \<open>The inventory: ledger and queues\<close>

lemma ledger_eq: "ledger stock p = counter_get (comptes stock) p"
  by (simp add: ledger_def quantite_comptable_def)

lemma comptes_ajouter:
  "comptes (ajouter stock q) = (comptes stock)(q \<mapsto> counter_get (comptes stock) q + 1)"
  by (simp add: ajouter_def Let_def)

lemma files_ajouter:
  "files (ajouter stock q) =
     (files stock)(q \<mapsto> (case files stock q of None \<Rightarrow> [] | Some f \<Rightarrow> f) @ [q])"
  by (auto simp: ajouter_def Let_def split: option.splits)

lemma alerteur_ajouter: "alerteur (ajouter stock q) = alerteur stock"
  by (simp add: ajouter_def Let_def)

lemma fst_sortir:
  "fst (sortir stock q) =
     (case files stock q of None \<Rightarrow> None | Some [] \<Rightarrow> None | Some (u # r) \<Rightarrow> Some u)"
  by (simp add: sortir_def verifier_seuil_def noter_def Let_def
           split: option.splits list.splits prod.splits)

lemma comptes_sortir:
  "comptes (snd (snd (sortir stock q))) =
     (comptes stock)(q \<mapsto> counter_get (comptes stock) q - 1)"
  by (simp add: sortir_def verifier_seuil_def noter_def Let_def
           split: option.splits list.splits prod.splits)

lemma files_sortir:
  "files (snd (snd (sortir stock q))) =
     (case files stock q of None \<Rightarrow> files stock | Some [] \<Rightarrow> files stock
      | Some (u # r) \<Rightarrow> (files stock)(q \<mapsto> r))"
  by (simp add: sortir_def verifier_seuil_def noter_def Let_def
           split: option.splits list.splits prod.splits)

lemma alerteur_sortir:
  "alerteur (snd (snd (sortir stock q))) =
     (if ledger stock q - 1 < 2
      then snd (noter (alerteur stock) (message_seuil q (ledger stock q - 1)))
      else alerteur stock)"
  by (simp add: sortir_def verifier_seuil_def noter_def Let_def ledger_eq counter_get_def
           split: option.splits list.splits prod.splits)

lemma sorties_sortir:
  "fst (snd (sortir stock q)) =
     (if ledger stock q - 1 < 2 then [Log_warning (message_seuil q (ledger stock q - 1))] else [])
     @ (if fst (sortir stock q) = None then signaler_rupture q else [])"
  by (simp add: sortir_def verifier_seuil_def noter_def Let_def ledger_eq counter_get_def
           split: option.splits list.splits prod.splits)

lemma ledger_ajouter:
  "ledger (ajouter stock q) p = (if p = q then ledger stock p + 1 else ledger stock p)"
  by (simp add: ledger_eq comptes_ajouter counter_get_def)

lemma ledger_sortir:
  "ledger (snd (snd (sortir stock q))) p = (if p = q then ledger stock p - 1 else ledger stock p)"
  by (simp add: ledger_eq comptes_sortir counter_get_def)

lemma longueur_ajouter:
  "longueur_file (ajouter stock q) p =
     (if p = q then longueur_file stock p + 1 else longueur_file stock p)"
  by (simp add: longueur_file_def files_ajouter split: option.splits)

lemma longueur_sortir:
  "longueur_file (snd (snd (sortir stock q))) p =
     (if p = q then longueur_file stock p - 1 else longueur_file stock p)"
  by (simp add: longueur_file_def files_sortir split: option.splits list.splits)

lemma ledger_neuf: "ledger inventaire_neuf p = 0"
  by (simp add: ledger_eq inventaire_neuf_def inventaire_init_def counter_get_def)

lemma longueur_neuf: "longueur_file inventaire_neuf p = 0"
  by (simp add: longueur_file_def inventaire_neuf_def inventaire_init_def)

lemma ledger_derouler:
  "ledger (derouler stock appels) p =
     ledger stock p + int (count_list appels (Ajouter p)) - int (count_list appels (Sortir p))"
proof (induction appels arbitrary: stock)
  case Nil
  then show ?case by (simp add: derouler_def)
next
  case (Cons a appels)
  have step: "derouler stock (a # appels) = derouler (appliquer stock a) appels"
    by (simp add: derouler_def)
  show ?case
    unfolding step Cons.IH
    by (cases a) (simp_all add: ledger_ajouter ledger_sortir)
qed

text \<open>
  Claim C1.  From a new inventory, after any sequence of \<open>ajouter\<close> and \<open>sortir\<close> calls
  (on any products), the ledger count of \<open>p\<close> is the number of \<open>ajouter(p)\<close> calls minus
  the number of \<open>sortir(p)\<close> calls, whatever the queues hold; a product that no call
  names has count 0; and \<open>quantite_comptable\<close> returns the state it was given.
\<close>

theorem C1_ledger_count:
  "ledger (derouler inventaire_neuf appels) p =
     int (count_list appels (Ajouter p)) - int (count_list appels (Sortir p))
   \<and> (Ajouter p \<notin> set appels \<and> Sortir p \<notin> set appels \<longrightarrow>
        ledger (derouler inventaire_neuf appels) p = 0)
   \<and> snd (quantite_comptable stock p) = stock"
proof -
  have a: "ledger (derouler inventaire_neuf appels) p =
     int (count_list appels (Ajouter p)) - int (count_list appels (Sortir p))"
    by (simp add: ledger_derouler ledger_neuf)
  have b: "Ajouter p \<notin> set appels \<and> Sortir p \<notin> set appels \<longrightarrow>
        ledger (derouler inventaire_neuf appels) p = 0"
    by (simp add: a count_list_0_iff)
  have c: "snd (quantite_comptable stock p) = stock"
    by (simp add: quantite_comptable_def)
  from a b c show ?thesis by blast
qed

lemma invariant_ajouter:
  assumes "\<forall>p. ledger stock p \<le> int (longueur_file stock p)"
  shows "\<forall>p. ledger (ajouter stock q) p \<le> int (longueur_file (ajouter stock q) p)"
  using assms by (simp add: ledger_ajouter longueur_ajouter)

lemma invariant_sortir:
  assumes "\<forall>p. ledger stock p \<le> int (longueur_file stock p)"
  shows "\<forall>p. ledger (snd (snd (sortir stock q))) p
             \<le> int (longueur_file (snd (snd (sortir stock q))) p)"
proof
  fix p
  from assms have "ledger stock p \<le> int (longueur_file stock p)" by blast
  then show "ledger (snd (snd (sortir stock q))) p
             \<le> int (longueur_file (snd (snd (sortir stock q))) p)"
    by (cases "p = q") (auto simp: ledger_sortir longueur_sortir)
qed

lemma invariant_derouler:
  assumes "\<forall>p. ledger stock p \<le> int (longueur_file stock p)"
  shows "\<forall>p. ledger (derouler stock appels) p \<le> int (longueur_file (derouler stock appels) p)"
  using assms
proof (induction appels arbitrary: stock)
  case Nil
  then show ?case by (simp add: derouler_def)
next
  case (Cons a appels)
  have step: "derouler stock (a # appels) = derouler (appliquer stock a) appels"
    by (simp add: derouler_def)
  have "\<forall>p. ledger (appliquer stock a) p \<le> int (longueur_file (appliquer stock a) p)"
    using Cons.prems by (cases a) (simp_all add: invariant_ajouter invariant_sortir)
  then show ?case unfolding step by (rule Cons.IH)
qed


lemma alerte_ok_neuf: "alerte_ok (alerteur inventaire_neuf)"
  by (simp add: inventaire_neuf_def inventaire_init_def alerte_ok_init)

lemma alerte_ok_ajouter: "alerte_ok (alerteur stock) \<Longrightarrow> alerte_ok (alerteur (ajouter stock q))"
  by (simp add: alerteur_ajouter)

lemma alerte_ok_sortir:
  "alerte_ok (alerteur stock) \<Longrightarrow> alerte_ok (alerteur (snd (snd (sortir stock q))))"
  by (simp add: alerteur_sortir alerte_ok_noter)

text \<open>
  Witness for C1: one arrival and two dispatches of \<open>A1\<close> leave its count at \<open>-1\<close>.
\<close>

theorem C1_ledger_count_witness:
  "ledger (derouler inventaire_neuf [Ajouter ''A1'', Sortir ''A1'', Sortir ''A1'']) ''A1'' = - 1"
  using C1_ledger_count [of "[Ajouter ''A1'', Sortir ''A1'', Sortir ''A1'']" "''A1''" inventaire_neuf]
  by simp

text \<open>
  Claim C2.  In every state reached from a new inventory by \<open>ajouter\<close> and \<open>sortir\<close>
  calls, the ledger count of every product is at most the length of its queue (0 for
  a product without queue), and that length is not negative; one \<open>ajouter\<close> and one
  \<open>sortir\<close> each preserve the inequality, from any state where it holds.
\<close>

theorem C2_ledger_below_queue:
  "(\<forall>p. ledger (derouler inventaire_neuf appels) p
           \<le> int (longueur_file (derouler inventaire_neuf appels) p)
        \<and> 0 \<le> int (longueur_file (derouler inventaire_neuf appels) p))
   \<and> ((\<forall>p. ledger stock p \<le> int (longueur_file stock p)) \<longrightarrow>
        (\<forall>p. ledger (ajouter stock q) p \<le> int (longueur_file (ajouter stock q) p))
      \<and> (\<forall>p. ledger (snd (snd (sortir stock q))) p
               \<le> int (longueur_file (snd (snd (sortir stock q))) p)))"
proof -
  have "\<forall>p. ledger inventaire_neuf p \<le> int (longueur_file inventaire_neuf p)"
    by (simp add: ledger_neuf longueur_neuf)
  then have "\<forall>p. ledger (derouler inventaire_neuf appels) p
           \<le> int (longueur_file (derouler inventaire_neuf appels) p)"
    by (rule invariant_derouler)
  then show ?thesis
    using invariant_ajouter [of stock q] invariant_sortir [of stock q] by simp
qed

text \<open>
  Witness for C2: the new inventory satisfies the inequality, and so does the state
  after one \<open>sortir\<close> on it.
\<close>

theorem C2_ledger_below_queue_witness:
  "(\<forall>p. ledger inventaire_neuf p \<le> int (longueur_file inventaire_neuf p))
   \<and> (\<forall>p. ledger (snd (snd (sortir inventaire_neuf ''A1''))) p
            \<le> int (longueur_file (snd (snd (sortir inventaire_neuf ''A1''))) p))"
  using C2_ledger_below_queue [of "[]" inventaire_neuf "''A1''"]
  by (simp add: ledger_neuf longueur_neuf)

text \<open>
  Claim C4.  In a state whose alert buffer is well formed, \<open>sortir(p)\<close> lowers the ledger
  count of \<open>p\<close> by exactly 1; it returns and removes the front unit of the queue of \<open>p\<close>
  when that queue exists and is not empty, and otherwise returns \<open>None\<close> and leaves
  the queues as they were; the two backorder notices are written exactly when it
  returns \<open>None\<close>, after the low-stock warning when there is one.  \<open>sortir\<close> has no
  strategy parameter.
\<close>

theorem C4_sortir:
  assumes "alerte_ok (alerteur stock)"
  shows "ledger (snd (snd (sortir stock p))) p = ledger stock p - 1
     \<and> (case files stock p of
           Some (u # reste) \<Rightarrow>
             fst (sortir stock p) = Some u
             \<and> files (snd (snd (sortir stock p))) = (files stock)(p \<mapsto> reste)
         | _ \<Rightarrow>
             fst (sortir stock p) = None
             \<and> files (snd (snd (sortir stock p))) = files stock)
     \<and> (set (signaler_rupture p) \<subseteq> set (fst (snd (sortir stock p))))
          = (fst (sortir stock p) = None)
     \<and> (\<exists>e \<in> set (signaler_rupture p). e \<in> set (fst (snd (sortir stock p))))
          = (fst (sortir stock p) = None)
     \<and> fst (snd (sortir stock p)) =
          (if ledger stock p - 1 < 2
           then [Log_warning (message_seuil p (ledger stock p - 1))] else [])
          @ (if fst (sortir stock p) = None then signaler_rupture p else [])"
proof -
  have a: "ledger (snd (snd (sortir stock p))) p = ledger stock p - 1"
    by (simp add: ledger_sortir)
  have b: "(case files stock p of
           Some (u # reste) \<Rightarrow>
             fst (sortir stock p) = Some u
             \<and> files (snd (snd (sortir stock p))) = (files stock)(p \<mapsto> reste)
         | _ \<Rightarrow>
             fst (sortir stock p) = None
             \<and> files (snd (snd (sortir stock p))) = files stock)"
    by (simp add: fst_sortir files_sortir split: option.splits list.splits)
  have c: "fst (snd (sortir stock p)) =
          (if ledger stock p - 1 < 2
           then [Log_warning (message_seuil p (ledger stock p - 1))] else [])
          @ (if fst (sortir stock p) = None then signaler_rupture p else [])"
    by (rule sorties_sortir)
  have d: "(set (signaler_rupture p) \<subseteq> set (fst (snd (sortir stock p))))
          = (fst (sortir stock p) = None)"
    unfolding c by (auto simp: signaler_rupture_def)
  have e: "(\<exists>e \<in> set (signaler_rupture p). e \<in> set (fst (snd (sortir stock p))))
          = (fst (sortir stock p) = None)"
    unfolding c by (auto simp: signaler_rupture_def)
  from a b c d e show ?thesis by blast
qed

text \<open>
  Witness for C4: \<open>sortir\<close> on a new inventory returns \<open>None\<close> and leaves the count at
  \<open>-1\<close>.
\<close>

theorem C4_sortir_witness:
  "alerte_ok (alerteur inventaire_neuf)
   \<and> ledger (snd (snd (sortir inventaire_neuf ''A1''))) ''A1'' = - 1
   \<and> fst (sortir inventaire_neuf ''A1'') = None"
proof -
  have h: "alerte_ok (alerteur inventaire_neuf)" by (rule alerte_ok_neuf)
  have f: "files inventaire_neuf ''A1'' = None"
    by (simp add: inventaire_neuf_def inventaire_init_def)
  from C4_sortir [OF h, of "''A1''"] h show ?thesis
    by (simp add: f ledger_neuf)
qed

text \<open>
  Claim C5.  In a state whose alert buffer is well formed, \<open>sortir(p)\<close> checks the
  threshold on the count \<open>c\<close> reached after its decrement: if \<open>c < 2\<close> the alert buffer
  after the call is the one before with exactly the message naming \<open>p\<close> and \<open>c\<close>
  recorded at the cursor, and the call emits that one warning; if \<open>c \<ge> 2\<close> the buffer
  is unchanged and no warning is emitted.  As this holds in every state, the alert is
  recorded again by each later call while the count stays below 2.
\<close>

theorem C5_seuil:
  assumes "alerte_ok (alerteur stock)"
  shows "ledger (snd (snd (sortir stock p))) p = ledger stock p - 1
     \<and> (ledger stock p - 1 < 2 \<longrightarrow>
          alerteur (snd (snd (sortir stock p)))
            = snd (noter (alerteur stock) (message_seuil p (ledger stock p - 1)))
        \<and> historique (alerteur (snd (snd (sortir stock p)))) ! index_ecr (alerteur stock)
            = Some (message_seuil p (ledger stock p - 1))
        \<and> filter (\<lambda>e. case e of Log_warning _ \<Rightarrow> True | _ \<Rightarrow> False)
              (fst (snd (sortir stock p)))
            = [Log_warning (message_seuil p (ledger stock p - 1))])
     \<and> (2 \<le> ledger stock p - 1 \<longrightarrow>
          alerteur (snd (snd (sortir stock p))) = alerteur stock
        \<and> filter (\<lambda>e. case e of Log_warning _ \<Rightarrow> True | _ \<Rightarrow> False)
              (fst (snd (sortir stock p))) = [])
     \<and> message_seuil p (ledger stock p - 1)
          = ''ALERTE: Stock faible '' @ p @ '' (Reste: '' @ str_int (ledger stock p - 1) @ '')''"
proof -
  let ?c = "ledger stock p - 1"
  from assms have idx: "index_ecr (alerteur stock) < length (historique (alerteur stock))"
    by (simp add: alerte_ok_def)
  have a: "ledger (snd (snd (sortir stock p))) p = ?c"
    by (simp add: ledger_sortir)
  have b1: "?c < 2 \<longrightarrow> alerteur (snd (snd (sortir stock p)))
            = snd (noter (alerteur stock) (message_seuil p ?c))"
    by (simp add: alerteur_sortir)
  have b2: "?c < 2 \<longrightarrow>
        historique (alerteur (snd (snd (sortir stock p)))) ! index_ecr (alerteur stock)
            = Some (message_seuil p ?c)"
    using idx by (simp add: alerteur_sortir noter_def)
  have b3: "?c < 2 \<longrightarrow> filter (\<lambda>e. case e of Log_warning _ \<Rightarrow> True | _ \<Rightarrow> False)
              (fst (snd (sortir stock p))) = [Log_warning (message_seuil p ?c)]"
    by (simp add: sorties_sortir signaler_rupture_def)
  have c1: "2 \<le> ?c \<longrightarrow> alerteur (snd (snd (sortir stock p))) = alerteur stock"
    by (simp add: alerteur_sortir)
  have c2: "2 \<le> ?c \<longrightarrow> filter (\<lambda>e. case e of Log_warning _ \<Rightarrow> True | _ \<Rightarrow> False)
              (fst (snd (sortir stock p))) = []"
    by (simp add: sorties_sortir signaler_rupture_def)
  have d: "message_seuil p ?c
          = ''ALERTE: Stock faible '' @ p @ '' (Reste: '' @ str_int ?c @ '')''"
    by (simp add: message_seuil_def)
  from a b1 b2 b3 c1 c2 d show ?thesis by blast
qed

lemma ledger_ajouter_neuf: "ledger (ajouter inventaire_neuf ''A1'') ''A1'' = 1"
  by (simp add: ledger_ajouter ledger_neuf)

lemma message_seuil_A1_0: "message_seuil ''A1'' 0 = ''ALERTE: Stock faible A1 (Reste: 0)''"
  by code_simp

text \<open>
  Witness for C5: with one \<open>A1\<close> in stock, \<open>sortir\<close> records the alert for count 0.
\<close>

theorem C5_seuil_witness:
  "alerte_ok (alerteur (ajouter inventaire_neuf ''A1''))
   \<and> historique (alerteur (snd (snd (sortir (ajouter inventaire_neuf ''A1'') ''A1''))))
         ! index_ecr (alerteur (ajouter inventaire_neuf ''A1''))
       = Some ''ALERTE: Stock faible A1 (Reste: 0)''"
proof -
  have h: "alerte_ok (alerteur (ajouter inventaire_neuf ''A1''))"
    by (simp add: alerte_ok_ajouter alerte_ok_neuf)
  have l: "ledger (ajouter inventaire_neuf ''A1'') ''A1'' - 1 = 0"
    by (simp add: ledger_ajouter_neuf)
  have lt: "ledger (ajouter inventaire_neuf ''A1'') ''A1'' - 1 < 2"
    by (simp add: l)
  from C5_seuil [OF h, of "''A1''"] lt
  have "historique (alerteur (snd (snd (sortir (ajouter inventaire_neuf ''A1'') ''A1''))))
         ! index_ecr (alerteur (ajouter inventaire_neuf ''A1''))
       = Some (message_seuil ''A1'' (ledger (ajouter inventaire_neuf ''A1'') ''A1'' - 1))"
    by blast
  with h show ?thesis by (simp only: l message_seuil_A1_0)
qed


section \<open>Sorting by volume\<close>

lemma mset_py_sort_reverse: "mset (py_sort_reverse f xs) = mset xs"
  by (simp add: py_sort_reverse_def)



lemma fst_assembler_colis:
  "fst (assembler_colis stock demandes) = trier_par_volume (fst (colis_brut stock demandes))"
  by (simp add: assembler_colis_def split: prod.splits)


section \<open>The volume of an identifier\<close>

lemma chiffre_pas_espace: "chiffre_ascii c \<Longrightarrow> \<not> ascii_isspace c"
  by (auto simp: chiffre_ascii_def ascii_isspace_def)

lemma chiffre_pas_souligne: "chiffre_ascii c \<Longrightarrow> c \<noteq> 95 \<and> c \<noteq> 43 \<and> c \<noteq> 45"
  by (auto simp: chiffre_ascii_def)

lemma strip_ascii_decomp:
  "\<exists>e1 e2. s = e1 @ strip_ascii s @ e2
     \<and> (\<forall>c\<in>set e1. ascii_isspace c) \<and> (\<forall>c\<in>set e2. ascii_isspace c)"
proof -
  let ?d = "dropWhile ascii_isspace s"
  let ?e1 = "takeWhile ascii_isspace s"
  let ?e2 = "rev (takeWhile ascii_isspace (rev ?d))"
  have "?d = rev (dropWhile ascii_isspace (rev ?d)) @ rev (takeWhile ascii_isspace (rev ?d))"
    by (metis rev_append rev_rev_ident takeWhile_dropWhile_id)
  then have d: "?d = strip_ascii s @ ?e2"
    by (simp add: strip_ascii_def)
  have "s = ?e1 @ ?d" by simp
  with d have "s = ?e1 @ strip_ascii s @ ?e2" by simp
  moreover have "\<forall>c\<in>set ?e1. ascii_isspace c" by (auto dest: set_takeWhileD)
  moreover have "\<forall>c\<in>set ?e2. ascii_isspace c" by (auto dest: set_takeWhileD)
  ultimately show ?thesis by blast
qed

lemma strip_ascii_entre:
  assumes "\<forall>c\<in>set e1. ascii_isspace c" and "\<forall>c\<in>set e2. ascii_isspace c"
    and "m \<noteq> []" and "\<not> ascii_isspace (hd m)" and "\<not> ascii_isspace (last m)"
  shows "strip_ascii (e1 @ m @ e2) = m"
proof -
  have "dropWhile ascii_isspace (e1 @ m @ e2) = dropWhile ascii_isspace (m @ e2)"
    using assms(1) by (intro dropWhile_append2) auto
  also have "\<dots> = m @ e2"
    using assms(3,4) by (cases m) simp_all
  finally have a: "dropWhile ascii_isspace (e1 @ m @ e2) = m @ e2" .
  have "dropWhile ascii_isspace (rev e2 @ rev m) = dropWhile ascii_isspace (rev m)"
    using assms(2) by (intro dropWhile_append2) auto
  also have "\<dots> = rev m"
  proof (cases "rev m")
    case Nil
    then show ?thesis by simp
  next
    case (Cons x xs)
    then have "x = last m" using assms(3) by (metis hd_rev list.sel(1))
    with assms(5) have "\<not> ascii_isspace x" by simp
    then have "dropWhile ascii_isspace (x # xs) = x # xs" by simp
    then show ?thesis by (simp only: Cons)
  qed
  finally have b: "dropWhile ascii_isspace (rev e2 @ rev m) = rev m" .
  show ?thesis by (simp add: strip_ascii_def a b)
qed

lemma corps_valide_chiffres:
  "\<forall>c\<in>set g. chiffre_ascii c \<Longrightarrow> g \<noteq> [] \<Longrightarrow>
   corps_valide prec (g @ r) = corps_valide (Some (last g)) r"
proof (induction g arbitrary: prec)
  case Nil
  then show ?case by simp
next
  case (Cons c g)
  then have c: "chiffre_ascii c" "c \<noteq> 95" by (simp_all add: chiffre_pas_souligne)
  show ?case
  proof (cases "g = []")
    case True
    then show ?thesis using c by simp
  next
    case False
    then show ?thesis using c Cons by simp
  qed
qed

lemma corps_valide_joindre:
  "gs \<noteq> [] \<Longrightarrow> \<forall>g\<in>set gs. g \<noteq> [] \<and> (\<forall>c\<in>set g. chiffre_ascii c) \<Longrightarrow>
   corps_valide prec (joindre gs)"
proof (induction gs arbitrary: prec rule: joindre.induct)
  case 1
  then show ?case by simp
next
  case (2 g)
  then have g: "g \<noteq> []" "\<forall>c\<in>set g. chiffre_ascii c" by simp_all
  then have "chiffre_ascii (last g)" by simp
  then have "last g \<noteq> 95" by (simp add: chiffre_pas_souligne)
  then show ?case using corps_valide_chiffres [OF g(2) g(1), of prec "[]"] by simp
next
  case (3 g h gs)
  then have g: "g \<noteq> []" "\<forall>c\<in>set g. chiffre_ascii c" by simp_all
  then have "chiffre_ascii (last g)" by simp
  then have l: "last g \<noteq> 95" by (simp add: chiffre_pas_souligne)
  have "corps_valide (Some 95) (joindre (h # gs))"
    using "3.prems" by (intro "3.IH") simp_all
  then show ?case
    using corps_valide_chiffres [OF g(2) g(1), of prec "95 # joindre (h # gs)"] l by simp
qed

lemma joindre_extremes:
  "gs \<noteq> [] \<Longrightarrow> \<forall>g\<in>set gs. g \<noteq> [] \<and> (\<forall>c\<in>set g. chiffre_ascii c) \<Longrightarrow>
   joindre gs \<noteq> [] \<and> chiffre_ascii (hd (joindre gs)) \<and> chiffre_ascii (last (joindre gs))"
proof (induction gs rule: joindre.induct)
  case 1
  then show ?case by simp
next
  case (2 g)
  then show ?case by (simp add: hd_in_set)
next
  case (3 g h gs)
  then have "joindre (h # gs) \<noteq> [] \<and> chiffre_ascii (last (joindre (h # gs)))" by simp
  moreover from "3.prems" have "g \<noteq> []" "chiffre_ascii (hd g)" by (simp_all add: hd_in_set)
  ultimately show ?case by simp
qed

lemma filter_joindre:
  "\<forall>g\<in>set gs. \<forall>c\<in>set g. chiffre_ascii c \<Longrightarrow> filter chiffre_ascii (joindre gs) = concat gs"
  by (induction gs rule: joindre.induct) (simp_all add: chiffre_ascii_def)

lemma joindre_Cons_tete: "joindre ((c # g) # gs) = c # joindre (g # gs)"
  by (cases gs) simp_all

lemma joindre_Cons_seul: "gs \<noteq> [] \<Longrightarrow> joindre ([c] # gs) = c # 95 # joindre gs"
  by (cases gs) simp_all

lemma corps_valide_groupes:
  "corps_valide prec cs \<Longrightarrow> cs \<noteq> [] \<Longrightarrow>
   (\<exists>gs. gs \<noteq> [] \<and> (\<forall>g\<in>set gs. g \<noteq> [] \<and> (\<forall>c\<in>set g. chiffre_ascii c))
         \<and> (if hd cs = 95 then tl cs else cs) = joindre gs)"
proof (induction cs arbitrary: prec)
  case Nil
  then show ?case by simp
next
  case (Cons c cs)
  show ?case
  proof (cases "c = 95")
    case True
    with Cons.prems have v: "corps_valide (Some 95) cs" by simp
    then have ne: "cs \<noteq> []" by (cases cs) auto
    from v ne have "hd cs \<noteq> 95" by (cases cs) auto
    with Cons.IH [OF v ne] show ?thesis using True by simp
  next
    case False
    with Cons.prems have ch: "chiffre_ascii c" and v: "corps_valide (Some c) cs" by simp_all
    show ?thesis
    proof (cases "cs = []")
      case True
      have "[[c]] \<noteq> [] \<and> (\<forall>g\<in>set [[c]]. g \<noteq> [] \<and> (\<forall>x\<in>set g. chiffre_ascii x))
            \<and> (if hd (c # cs) = 95 then tl (c # cs) else c # cs) = joindre [[c]]"
        using ch True False by simp
      then show ?thesis by blast
    next
      case ne: False
      from Cons.IH [OF v ne] obtain gs where gs: "gs \<noteq> []"
        "\<forall>g\<in>set gs. g \<noteq> [] \<and> (\<forall>x\<in>set g. chiffre_ascii x)"
        "(if hd cs = 95 then tl cs else cs) = joindre gs" by blast
      show ?thesis
      proof (cases "hd cs = 95")
        case True
        with gs(3) ne have cs: "cs = 95 # joindre gs" by (cases cs) auto
        have "(if hd (c # cs) = 95 then tl (c # cs) else c # cs) = joindre ([c] # gs)"
          using gs(1) False by (simp add: cs joindre_Cons_seul)
        moreover have "\<forall>g\<in>set ([c] # gs). g \<noteq> [] \<and> (\<forall>x\<in>set g. chiffre_ascii x)"
          using gs(2) ch by simp
        moreover have "[c] # gs \<noteq> []" by simp
        ultimately show ?thesis by blast
      next
        case h: False
        with gs(3) have cs: "cs = joindre gs" by simp
        from gs(1) obtain g rest where gr: "gs = g # rest" by (cases gs) auto
        have "(if hd (c # cs) = 95 then tl (c # cs) else c # cs) = joindre ((c # g) # rest)"
          using False by (simp add: cs gr joindre_Cons_tete)
        moreover have "\<forall>k\<in>set ((c # g) # rest). k \<noteq> [] \<and> (\<forall>x\<in>set k. chiffre_ascii x)"
          using gs(2) ch gr by simp
        moreover have "(c # g) # rest \<noteq> []" by simp
        ultimately show ?thesis by blast
      qed
    qed
  qed
qed


lemma analyser_entier_litteral:
  assumes "litteral_entier a v"
  shows "analyser_entier a = Some v"
proof -
  from assms obtain e1 s gs e2 where
    a: "a = e1 @ s @ joindre gs @ e2"
    and e1: "\<forall>c\<in>set e1. ascii_isspace c" and e2: "\<forall>c\<in>set e2. ascii_isspace c"
    and s: "s = [] \<or> s = [43] \<or> s = [45]"
    and gs: "gs \<noteq> []" "\<forall>g\<in>set gs. g \<noteq> [] \<and> (\<forall>c\<in>set g. chiffre_ascii c)"
    and len: "length (concat gs) \<le> int_max_str_digits"
    and v: "v = (if s = [45] then - int (valeur_decimale (concat gs))
                 else int (valeur_decimale (concat gs)))"
    unfolding litteral_entier_def by blast
  let ?j = "joindre gs"
  from joindre_extremes [OF gs] have j: "?j \<noteq> []" "chiffre_ascii (hd ?j)" "chiffre_ascii (last ?j)"
    by simp_all
  have cv: "corps_valide None ?j" by (rule corps_valide_joindre [OF gs])
  have fl: "filter chiffre_ascii ?j = concat gs"
    using gs(2) by (intro filter_joindre) simp
  have nsig: "\<not> ascii_isspace 43" "\<not> ascii_isspace 45"
    by (simp_all add: ascii_isspace_def)
  have hd_ok: "\<not> ascii_isspace (hd (s @ ?j))"
    using s j nsig by (auto simp: chiffre_pas_espace)
  have last_ok: "\<not> ascii_isspace (last (s @ ?j))"
    using j by (simp add: chiffre_pas_espace)
  have "a = e1 @ (s @ ?j) @ e2" by (simp add: a)
  then have st: "strip_ascii a = s @ ?j"
    using strip_ascii_entre [OF e1 e2 _ hd_ok last_ok] j(1) by simp
  obtain d r where dr: "?j = d # r" using j(1) by (cases ?j) auto
  with j(2) have d: "d \<noteq> 43" "d \<noteq> 45" by (simp_all add: chiffre_pas_souligne)
  from s show ?thesis
  proof (elim disjE)
    assume "s = []"
    then show ?thesis
      using cv fl len v d unfolding analyser_entier_def st Let_def
      by (simp add: dr [symmetric]) (simp add: dr)
  next
    assume "s = [43]"
    then show ?thesis
      using cv fl len v unfolding analyser_entier_def st Let_def by simp
  next
    assume "s = [45]"
    then show ?thesis
      using cv fl len v unfolding analyser_entier_def st Let_def by simp
  qed
qed

lemma litteral_analyser_entier:
  assumes "analyser_entier a = Some v"
  shows "litteral_entier a v"
proof -
  let ?t = "strip_ascii a"
  let ?corps = "case ?t of [] \<Rightarrow> [] | c # r \<Rightarrow> if c = 43 \<or> c = 45 then r else ?t"
  let ?neg = "case ?t of [] \<Rightarrow> False | c # _ \<Rightarrow> c = 45"
  from assms have cv: "corps_valide None ?corps"
    and len: "length (filter chiffre_ascii ?corps) \<le> int_max_str_digits"
    and v: "v = (if ?neg then - int (valeur_decimale (filter chiffre_ascii ?corps))
                 else int (valeur_decimale (filter chiffre_ascii ?corps)))"
    by (simp_all add: analyser_entier_def Let_def split: if_splits)
  from cv have ne: "?corps \<noteq> []" by (cases ?corps) auto
  from cv ne have h: "hd ?corps \<noteq> 95" by (cases ?corps) auto
  from corps_valide_groupes [OF cv ne] h obtain gs where
    gs: "gs \<noteq> []" "\<forall>g\<in>set gs. g \<noteq> [] \<and> (\<forall>c\<in>set g. chiffre_ascii c)"
    and cj: "?corps = joindre gs" by auto
  have fl: "filter chiffre_ascii ?corps = concat gs"
    unfolding cj using gs(2) by (intro filter_joindre) simp
  from joindre_extremes [OF gs] have j: "chiffre_ascii (hd (joindre gs))" by simp
  have "\<exists>s. (s = [] \<or> s = [43] \<or> s = [45]) \<and> ?t = s @ joindre gs \<and> ?neg = (s = [45])"
  proof (cases ?t)
    case Nil
    with ne show ?thesis by simp
  next
    case (Cons c r)
    show ?thesis
    proof (cases "c = 43 \<or> c = 45")
      case True
      with Cons cj have "r = joindre gs" by simp
      with True Cons show ?thesis by auto
    next
      case False
      with Cons cj have e: "?t = joindre gs" by simp
      have "?neg = False" using False by (simp add: Cons)
      with e show ?thesis by (intro exI [of _ "[]"]) simp
    qed
  qed
  then obtain s where s: "s = [] \<or> s = [43] \<or> s = [45]" and ts: "?t = s @ joindre gs"
    and neg: "?neg = (s = [45])" by blast
  from strip_ascii_decomp [of a] obtain e1 e2 where
    a: "a = e1 @ ?t @ e2" and e1: "\<forall>c\<in>set e1. ascii_isspace c"
    and e2: "\<forall>c\<in>set e2. ascii_isspace c" by blast
  have a': "a = e1 @ s @ joindre gs @ e2" using a ts by simp
  have v': "v = (if s = [45] then - int (valeur_decimale (concat gs))
                 else int (valeur_decimale (concat gs)))"
    using v neg fl by simp
  have len': "length (concat gs) \<le> int_max_str_digits" using len fl by simp
  show ?thesis
    unfolding litteral_entier_def
    using a' e1 e2 s gs len' v' by blast
qed

lemma transformer_ascii_ascii: "\<forall>c\<in>set cs. c < 128 \<Longrightarrow> transformer_ascii esp dec cs = cs"
  by (simp add: transformer_ascii_def list_all_iff)

text \<open>
  Claim C9, amended.  The volume of an identifier is the integer written by all its
  characters after the first one (Unicode white space and decimal digits read as
  their ASCII counterparts): when these characters form an integer literal of value
  \<open>v\<close> the volume is \<open>v\<close>, and when they form no integer literal the volume is 0.  So
  one character followed by a non-empty run of decimal digits (at most
  \<open>int_max_str_digits\<close> of them) has the value of that run as volume, whatever the
  first character is, and an identifier of at most one character has volume 0.
\<close>

theorem C9_volume:
  "(litteral_entier (transformer_ascii esp dec (drop 1 t)) v
      \<longrightarrow> extraire_vol_points esp dec t = v)
   \<and> ((\<forall>w. \<not> litteral_entier (transformer_ascii esp dec (drop 1 t)) w)
      \<longrightarrow> extraire_vol_points esp dec t = 0)
   \<and> (ds \<noteq> [] \<and> (\<forall>d\<in>set ds. chiffre_ascii d) \<and> length ds \<le> int_max_str_digits
      \<longrightarrow> extraire_vol_points esp dec (c # ds) = int (valeur_decimale ds))
   \<and> (length t \<le> 1 \<longrightarrow> extraire_vol_points esp dec t = 0)"
proof -
  let ?a = "transformer_ascii esp dec (drop 1 t)"
  have p1: "extraire_vol_points esp dec t = v" if "litteral_entier ?a v"
    using analyser_entier_litteral [OF that]
    by (simp add: extraire_vol_points_def py_int_def)
  have p2: "extraire_vol_points esp dec t = 0" if n: "\<forall>w. \<not> litteral_entier ?a w"
  proof (cases "analyser_entier ?a")
    case None
    then show ?thesis by (simp add: extraire_vol_points_def py_int_def)
  next
    case (Some w)
    from litteral_analyser_entier [OF Some] n show ?thesis by blast
  qed
  have p3: "extraire_vol_points esp dec (c # ds) = int (valeur_decimale ds)"
    if d: "ds \<noteq> [] \<and> (\<forall>d\<in>set ds. chiffre_ascii d) \<and> length ds \<le> int_max_str_digits"
  proof -
    from d have "\<forall>x\<in>set ds. x < 128" by (auto simp: chiffre_ascii_def)
    then have tr: "transformer_ascii esp dec ds = ds" by (rule transformer_ascii_ascii)
    have "litteral_entier ds (int (valeur_decimale ds))"
      unfolding litteral_entier_def
      using d by (intro exI [of _ "[]"] exI [of _ "[ds]"]) simp
    from analyser_entier_litteral [OF this] show ?thesis
      by (simp add: extraire_vol_points_def py_int_def tr)
  qed
  have vide: "analyser_entier [] = None"
    by (simp add: analyser_entier_def strip_ascii_def)
  have p4: "extraire_vol_points esp dec t = 0" if "length t \<le> 1"
    using that by (simp add: extraire_vol_points_def py_int_def transformer_ascii_def vide)
  from p1 p2 p3 p4 show ?thesis by blast
qed

lemma exemple_moins_3:
  "litteral_entier (transformer_ascii latin1_isspace latin1_todecimal (drop 1 (points ''A-3''))) (- 3)"
proof -
  have t: "transformer_ascii latin1_isspace latin1_todecimal (drop 1 (points ''A-3'')) = [45, 51]"
    by (simp add: transformer_ascii_def points_def)
  have "litteral_entier [45, 51] (- 3)"
    unfolding litteral_entier_def
    by (intro exI [of _ "[]"] exI [of _ "[45]"] exI [of _ "[[51]]"])
       (simp add: chiffre_ascii_def valeur_decimale_def int_max_str_digits_def)
  then show ?thesis by (simp only: t)
qed

lemma exemple_AB3:
  "\<forall>w. \<not> litteral_entier
           (transformer_ascii latin1_isspace latin1_todecimal (drop 1 (points ''AB3''))) w"
proof (intro allI notI)
  fix w
  assume "litteral_entier
           (transformer_ascii latin1_isspace latin1_todecimal (drop 1 (points ''AB3''))) w"
  then have "analyser_entier
           (transformer_ascii latin1_isspace latin1_todecimal (drop 1 (points ''AB3''))) = Some w"
    by (rule analyser_entier_litteral)
  moreover have "analyser_entier
           (transformer_ascii latin1_isspace latin1_todecimal (drop 1 (points ''AB3''))) = None"
    by code_simp
  ultimately show False by simp
qed

text \<open>
  Witness for C9: \<open>A-3\<close> has volume \<open>-3\<close>, and \<open>AB3\<close>, whose tail is no literal, has
  volume 0.
\<close>

theorem C9_volume_witness:
  "extraire_vol ''A-3'' = - 3 \<and> extraire_vol ''AB3'' = 0"
proof -
  from C9_volume [of latin1_isspace latin1_todecimal "points ''A-3''" "- 3"] exemple_moins_3
  have a: "extraire_vol_points latin1_isspace latin1_todecimal (points ''A-3'') = - 3" by blast
  from C9_volume [of latin1_isspace latin1_todecimal "points ''AB3''"] exemple_AB3
  have b: "extraire_vol_points latin1_isspace latin1_todecimal (points ''AB3'') = 0" by blast
  from a b show ?thesis by (simp only: extraire_vol_def)
qed

lemma exemples_extraire_vol:
  "extraire_vol (''A3'' @ [CHR 0x1C]) = 0"
  "extraire_vol (''A3'' @ [CHR 0x85]) = 3"
  "extraire_vol ''A1_000'' = 1000"
  "extraire_vol ''A+5'' = 5"
  "extraire_vol_points (\<lambda>c. False)
     (\<lambda>c. if 1632 \<le> c \<and> c \<le> 1641 then Some (c - 1632) else None) [65, 1635, 50] = 32"
  by code_simp+

text \<open>
  Counterexample to C9 as stated: \<open>AB3\<close> ends in the digit run \<open>3\<close>, and its volume
  is 0, since \<open>B3\<close> is not an integer literal.
\<close>

theorem C9_volume_counterexample:
  "extraire_vol ''AB3'' = 0 \<and> volume_selon_spec (points ''AB3'') = 3
   \<and> extraire_vol ''AB3'' \<noteq> volume_selon_spec (points ''AB3'')"
  by code_simp


section \<open>The feasibility check\<close>

lemma cles_counter_incr: "fst ` set (counter_incr kvs p) = insert p (fst ` set kvs)"
  by (induction kvs p rule: counter_incr.induct) auto

lemma distinct_counter_incr:
  "distinct (map fst kvs) \<Longrightarrow> distinct (map fst (counter_incr kvs p))"
proof (induction kvs p rule: counter_incr.induct)
  case (1 p)
  then show ?case by simp
next
  case (2 k v kvs p)
  then show ?case
    using cles_counter_incr [of kvs p] by (auto simp: image_iff)
qed

lemma map_of_counter_incr:
  "map_of (counter_incr kvs p) =
     (map_of kvs)(p \<mapsto> (case map_of kvs p of None \<Rightarrow> 1 | Some v \<Rightarrow> v + 1))"
  by (induction kvs p rule: counter_incr.induct) (auto simp: fun_eq_iff)

lemma distinct_foldl_counter:
  "distinct (map fst kvs) \<Longrightarrow> distinct (map fst (foldl counter_incr kvs ds))"
  by (induction ds arbitrary: kvs) (simp_all add: distinct_counter_incr)

lemma cles_foldl_counter:
  "fst ` set (foldl counter_incr kvs ds) = fst ` set kvs \<union> set ds"
  by (induction ds arbitrary: kvs) (auto simp: cles_counter_incr)

lemma map_of_foldl_counter:
  "p \<in> fst ` set kvs \<union> set ds \<Longrightarrow>
   map_of (foldl counter_incr kvs ds) p =
     Some ((case map_of kvs p of None \<Rightarrow> 0 | Some v \<Rightarrow> v) + int (count_list ds p))"
proof (induction ds arbitrary: kvs)
  case Nil
  then obtain v where "map_of kvs p = Some v"
    by (cases "map_of kvs p") (auto simp: map_of_eq_None_iff)
  then show ?case by simp
next
  case (Cons d ds)
  have "p \<in> fst ` set (counter_incr kvs d) \<union> set ds"
    using Cons.prems by (auto simp: cles_counter_incr)
  from Cons.IH [OF this] show ?case
    by (auto simp: map_of_counter_incr split: option.splits)
qed

lemma Counter_iff:
  "(p, q) \<in> set (Counter ds) \<longleftrightarrow> p \<in> set ds \<and> q = int (count_list ds p)"
proof -
  have d: "distinct (map fst (Counter ds))"
    unfolding Counter_def by (rule distinct_foldl_counter) simp
  have k: "fst ` set (Counter ds) = set ds"
    unfolding Counter_def by (simp add: cles_foldl_counter)
  have m: "p \<in> set ds \<Longrightarrow> map_of (Counter ds) p = Some (int (count_list ds p))"
    unfolding Counter_def using map_of_foldl_counter [of p "[]" ds] by simp
  show ?thesis
  proof
    assume pq: "(p, q) \<in> set (Counter ds)"
    then have "p \<in> set ds" using k by force
    moreover from pq d have "map_of (Counter ds) p = Some q" by simp
    ultimately show "p \<in> set ds \<and> q = int (count_list ds p)" using m by simp
  next
    assume "p \<in> set ds \<and> q = int (count_list ds p)"
    then have "map_of (Counter ds) p = Some q" using m by simp
    then show "(p, q) \<in> set (Counter ds)" by (rule map_of_SomeD)
  qed
qed

lemma faisabilite_boucle_Cons:
  "faisabilite_boucle stock ((p, q) # besoins) possible =
     (if ledger stock p < q
      then (fst (faisabilite_boucle stock besoins False),
            Print (''Manque '' @ p @ '' (Requis: '' @ str_int q @ '')'')
              # fst (snd (faisabilite_boucle stock besoins False)),
            snd (snd (faisabilite_boucle stock besoins False)))
      else faisabilite_boucle stock besoins possible)"
  by (simp add: quantite_comptable_def ledger_def split: prod.splits)

lemma etat_faisabilite_boucle:
  "snd (snd (faisabilite_boucle stock besoins possible)) = stock"
proof (induction besoins arbitrary: possible)
  case Nil
  then show ?case by simp
next
  case (Cons b besoins)
  obtain p q where b: "b = (p, q)" by (cases b)
  show ?case unfolding b faisabilite_boucle_Cons by (simp add: Cons.IH)
qed

lemma resultat_faisabilite_boucle:
  "fst (faisabilite_boucle stock besoins possible) =
     (possible \<and> (\<forall>p q. (p, q) \<in> set besoins \<longrightarrow> \<not> ledger stock p < q))"
proof (induction besoins arbitrary: possible)
  case Nil
  then show ?case by simp
next
  case (Cons b besoins)
  obtain p q where b: "b = (p, q)" by (cases b)
  show ?case unfolding b faisabilite_boucle_Cons by (auto simp: Cons.IH)
qed

lemma etat_verifier_faisabilite: "snd (snd (verifier_faisabilite stock ds)) = stock"
  by (simp add: verifier_faisabilite_def etat_faisabilite_boucle)

lemma resultat_verifier_faisabilite:
  "fst (verifier_faisabilite stock ds) = (\<forall>p\<in>set ds. int (count_list ds p) \<le> ledger stock p)"
  unfolding verifier_faisabilite_def resultat_faisabilite_boucle
  by (auto simp: Counter_iff)

lemma traiter_commande_rejet:
  assumes "\<not> fst (verifier_faisabilite (inventaire g) (parser texte))"
  shows "fst (traiter_commande g texte True) = []"
    and "snd (snd (traiter_commande g texte True)) = g"
    and "fst (snd (traiter_commande g texte True))
           = fst (snd (verifier_faisabilite (inventaire g) (parser texte))) @ [commande_annulee]"
  using assms etat_verifier_faisabilite [of "inventaire g" "parser texte"]
  by (auto simp: traiter_commande_def Let_def split: prod.splits)

lemma traiter_commande_assemble:
  assumes "strict \<longrightarrow> fst (verifier_faisabilite (inventaire g) (parser texte))"
  shows "fst (traiter_commande g texte strict)
           = trier_par_volume (fst (colis_brut (inventaire g) (parser texte)))"
    and "inventaire (snd (snd (traiter_commande g texte strict)))
           = snd (snd (colis_brut (inventaire g) (parser texte)))"
  using assms etat_verifier_faisabilite [of "inventaire g" "parser texte"]
  by (auto simp: traiter_commande_def assembler_colis_def Let_def split: prod.splits)


text \<open>
  Claim C3.  In every state and for every order text: when some demanded product is
  required, over the whole order, in a quantity above its current ledger count, the
  strict order fails the feasibility check, returns the empty package, and leaves the
  manager exactly as it was (ledger, queues and alert buffer); the last thing it
  prints is the cancellation notice.
\<close>

theorem C3_rejet_sans_effet:
  assumes "\<exists>p\<in>set (parser texte).
             ledger (inventaire g) p < int (count_list (parser texte) p)"
  shows "\<not> fst (verifier_faisabilite (inventaire g) (parser texte))
     \<and> fst (traiter_commande g texte True) = []
     \<and> snd (snd (traiter_commande g texte True)) = g
     \<and> last (fst (snd (traiter_commande g texte True))) = commande_annulee"
proof -
  from assms have r: "\<not> fst (verifier_faisabilite (inventaire g) (parser texte))"
    unfolding resultat_verifier_faisabilite by (force simp: not_le)
  show ?thesis
    using r traiter_commande_rejet [OF r] by simp
qed

lemma exemple_manque:
  "\<exists>p\<in>set (parser ''A1, A1, A1'').
      ledger (inventaire (snd (gestionnaire_init (Some ''A1, A1, B2, C3, A3'')))) p
        < int (count_list (parser ''A1, A1, A1'') p)"
  by code_simp

text \<open>
  Witness for C3: the reference scenario, three \<open>A1\<close> ordered with two in stock.
\<close>

theorem C3_rejet_sans_effet_witness:
  "fst (traiter_commande (snd (gestionnaire_init (Some ''A1, A1, B2, C3, A3'')))
          ''A1, A1, A1'' True) = []
   \<and> snd (snd (traiter_commande (snd (gestionnaire_init (Some ''A1, A1, B2, C3, A3'')))
          ''A1, A1, A1'' True))
       = snd (gestionnaire_init (Some ''A1, A1, B2, C3, A3''))"
  using C3_rejet_sans_effet [OF exemple_manque] by blast





section \<open>Units, packages and reachable states\<close>

lemma unites_ajouter:
  assumes "\<forall>p q. files stock p = Some q \<longrightarrow> set q \<subseteq> {p}"
  shows "\<forall>p q. files (ajouter stock d) p = Some q \<longrightarrow> set q \<subseteq> {p}"
proof (intro allI impI)
  fix p q
  assume h: "files (ajouter stock d) p = Some q"
  show "set q \<subseteq> {p}"
  proof (cases "p = d")
    case True
    have "set (case files stock d of None \<Rightarrow> [] | Some f \<Rightarrow> f) \<subseteq> {d}"
      using assms by (cases "files stock d") auto
    moreover from h True have "q = (case files stock d of None \<Rightarrow> [] | Some f \<Rightarrow> f) @ [d]"
      by (simp add: files_ajouter)
    ultimately show ?thesis using True by auto
  next
    case False
    with h have "files stock p = Some q" by (simp add: files_ajouter)
    with assms show ?thesis by blast
  qed
qed

lemma unites_sortir:
  assumes "\<forall>p q. files stock p = Some q \<longrightarrow> set q \<subseteq> {p}"
  shows "\<forall>p q. files (snd (snd (sortir stock d))) p = Some q \<longrightarrow> set q \<subseteq> {p}"
proof (intro allI impI)
  fix p q
  assume h: "files (snd (snd (sortir stock d))) p = Some q"
  show "set q \<subseteq> {p}"
  proof (cases "files stock d")
    case None
    with h assms show ?thesis by (simp add: files_sortir)
  next
    case (Some f)
    show ?thesis
    proof (cases f)
      case Nil
      with Some h assms show ?thesis by (simp add: files_sortir)
    next
      case (Cons v r)
      from Some assms have "set f \<subseteq> {d}" by blast
      then have r: "set r \<subseteq> {d}" unfolding Cons by auto
      show ?thesis
      proof (cases "p = d")
        case True
        with Some Cons h have "q = r" by (simp add: files_sortir)
        with r True show ?thesis by simp
      next
        case False
        with Some Cons h have "files stock p = Some q" by (simp add: files_sortir)
        with assms show ?thesis by blast
      qed
    qed
  qed
qed

lemma retour_sortir:
  assumes "\<forall>p q. files stock p = Some q \<longrightarrow> set q \<subseteq> {p}"
  shows "fst (sortir stock d) = None \<or> fst (sortir stock d) = Some d"
proof (cases "files stock d")
  case None
  then show ?thesis by (simp add: fst_sortir)
next
  case (Some f)
  show ?thesis
  proof (cases f)
    case Nil
    with Some show ?thesis by (simp add: fst_sortir)
  next
    case (Cons v r)
    from Some assms have "set f \<subseteq> {d}" by blast
    then have "v = d" unfolding Cons by simp
    with Some Cons show ?thesis by (simp add: fst_sortir)
  qed
qed

lemma colis_brut_Cons:
  "fst (colis_brut stock (d # ds)) =
     (case fst (sortir stock d) of None \<Rightarrow> fst (colis_brut (snd (snd (sortir stock d))) ds)
      | Some u \<Rightarrow> if u \<noteq> [] then u # fst (colis_brut (snd (snd (sortir stock d))) ds)
                  else fst (colis_brut (snd (snd (sortir stock d))) ds))"
  "fst (snd (colis_brut stock (d # ds))) =
     fst (snd (sortir stock d)) @ fst (snd (colis_brut (snd (snd (sortir stock d))) ds))"
  "snd (snd (colis_brut stock (d # ds))) = snd (snd (colis_brut (snd (snd (sortir stock d))) ds))"
  by (auto split: prod.splits option.splits)

lemma retours_Cons:
  "retours stock (d # ds) = fst (sortir stock d) # retours (snd (snd (sortir stock d))) ds"
  by (simp split: prod.splits)

lemma colis_brut_retours:
  "fst (colis_brut stock ds) =
     concat (map (\<lambda>r. case r of None \<Rightarrow> [] | Some u \<Rightarrow> if u \<noteq> [] then [u] else [])
               (retours stock ds))"
proof (induction ds arbitrary: stock)
  case Nil
  then show ?case by simp
next
  case (Cons d ds)
  show ?case
    unfolding colis_brut_Cons retours_Cons
    by (simp add: Cons.IH split: option.splits)
qed

lemma unites_colis_brut:
  assumes "\<forall>p q. files stock p = Some q \<longrightarrow> set q \<subseteq> {p}"
  shows "\<forall>p q. files (snd (snd (colis_brut stock ds))) p = Some q \<longrightarrow> set q \<subseteq> {p}"
  using assms
proof (induction ds arbitrary: stock)
  case Nil
  then show ?case by simp
next
  case (Cons d ds)
  show ?case
    unfolding colis_brut_Cons
    by (rule Cons.IH [OF unites_sortir [OF Cons.prems]])
qed

lemma invariant_colis_brut:
  assumes "\<forall>p. ledger stock p \<le> int (longueur_file stock p)"
  shows "\<forall>p. ledger (snd (snd (colis_brut stock ds))) p
             \<le> int (longueur_file (snd (snd (colis_brut stock ds))) p)"
  using assms
proof (induction ds arbitrary: stock)
  case Nil
  then show ?case by simp
next
  case (Cons d ds)
  show ?case
    unfolding colis_brut_Cons
    by (rule Cons.IH [OF invariant_sortir [OF Cons.prems]])
qed

lemma unites_foldl_ajouter:
  assumes "\<forall>p q. files stock p = Some q \<longrightarrow> set q \<subseteq> {p}"
  shows "\<forall>p q. files (foldl ajouter stock ds) p = Some q \<longrightarrow> set q \<subseteq> {p}"
  using assms
proof (induction ds arbitrary: stock)
  case Nil
  then show ?case by simp
next
  case (Cons d ds)
  show ?case
    unfolding foldl_Cons
    by (rule Cons.IH [OF unites_ajouter [OF Cons.prems]])
qed

lemma invariant_foldl_ajouter:
  assumes "\<forall>p. ledger stock p \<le> int (longueur_file stock p)"
  shows "\<forall>p. ledger (foldl ajouter stock ds) p \<le> int (longueur_file (foldl ajouter stock ds) p)"
  using assms
proof (induction ds arbitrary: stock)
  case Nil
  then show ?case by simp
next
  case (Cons d ds)
  show ?case
    unfolding foldl_Cons
    by (rule Cons.IH [OF invariant_ajouter [OF Cons.prems]])
qed

lemma count_colis_brut:
  assumes "\<forall>p q. files stock p = Some q \<longrightarrow> set q \<subseteq> {p}"
  shows "count_list (fst (colis_brut stock ds)) u \<le> count_list ds u"
  using assms
proof (induction ds arbitrary: stock)
  case Nil
  then show ?case by simp
next
  case (Cons d ds)
  let ?s = "snd (snd (sortir stock d))"
  have ih: "count_list (fst (colis_brut ?s ds)) u \<le> count_list ds u"
    by (rule Cons.IH [OF unites_sortir [OF Cons.prems]])
  from retour_sortir [OF Cons.prems, of d] show ?case
  proof
    assume "fst (sortir stock d) = None"
    then show ?thesis unfolding colis_brut_Cons using ih by auto
  next
    assume "fst (sortir stock d) = Some d"
    then show ?thesis unfolding colis_brut_Cons using ih by auto
  qed
qed


lemma parser_non_vide: "x \<in> set (parser texte) \<Longrightarrow> x \<noteq> []"
  by (auto simp: parser_def Let_def split: if_splits)

lemma colis_brut_complet:
  assumes "\<forall>p q. files stock p = Some q \<longrightarrow> set q \<subseteq> {p}"
    and "\<forall>p. ledger stock p \<le> int (longueur_file stock p)"
    and "\<forall>p\<in>set ds. p \<noteq> []"
    and "\<forall>p\<in>set ds. int (count_list ds p) \<le> ledger stock p"
  shows "retours stock ds = map Some ds
       \<and> fst (colis_brut stock ds) = ds
       \<and> (\<forall>m. Log_error m \<notin> set (fst (snd (colis_brut stock ds))))"
  using assms
proof (induction ds arbitrary: stock)
  case Nil
  then show ?case by simp
next
  case (Cons d ds)
  let ?s = "snd (snd (sortir stock d))"
  from Cons.prems(4) have "int (count_list (d # ds) d) \<le> ledger stock d" by simp
  then have l1: "1 + int (count_list ds d) \<le> ledger stock d" by simp
  then have "1 \<le> int (longueur_file stock d)"
    using Cons.prems(2) [rule_format, of d] by linarith
  then have "\<exists>f. files stock d = Some f \<and> f \<noteq> []"
    by (cases "files stock d") (auto simp: longueur_file_def)
  then obtain f where f: "files stock d = Some f" "f \<noteq> []" by blast
  then have nn: "fst (sortir stock d) \<noteq> None"
    by (cases f) (simp_all add: fst_sortir)
  with retour_sortir [OF Cons.prems(1), of d] have r: "fst (sortir stock d) = Some d" by blast
  have dne: "d \<noteq> []" using Cons.prems(3) by simp
  have u: "\<forall>p q. files ?s p = Some q \<longrightarrow> set q \<subseteq> {p}"
    by (rule unites_sortir [OF Cons.prems(1)])
  have i: "\<forall>p. ledger ?s p \<le> int (longueur_file ?s p)"
    by (rule invariant_sortir [OF Cons.prems(2)])
  have n: "\<forall>p\<in>set ds. p \<noteq> []" using Cons.prems(3) by simp
  have c: "\<forall>p\<in>set ds. int (count_list ds p) \<le> ledger ?s p"
  proof
    fix p assume p: "p \<in> set ds"
    from Cons.prems(4) p have "int (count_list (d # ds) p) \<le> ledger stock p" by simp
    with l1 show "int (count_list ds p) \<le> ledger ?s p"
      by (cases "p = d") (simp_all add: ledger_sortir)
  qed
  note ih = Cons.IH [OF u i n c]
  have so: "fst (snd (sortir stock d)) =
      (if ledger stock d - 1 < 2 then [Log_warning (message_seuil d (ledger stock d - 1))] else [])"
    using r by (simp add: sorties_sortir)
  have a: "retours stock (d # ds) = map Some (d # ds)"
    unfolding retours_Cons using ih r by simp
  have b: "fst (colis_brut stock (d # ds)) = d # ds"
    unfolding colis_brut_Cons(1) using ih r dne by simp
  have c: "\<forall>m. Log_error m \<notin> set (fst (snd (colis_brut stock (d # ds))))"
    unfolding colis_brut_Cons(2) so using ih by simp
  from a b c show ?case by blast
qed


lemma coherent_neuf: "coherent inventaire_neuf"
  by (simp add: coherent_def ledger_neuf longueur_neuf)
     (simp add: inventaire_neuf_def inventaire_init_def)

lemma coherent_foldl_ajouter: "coherent stock \<Longrightarrow> coherent (foldl ajouter stock ds)"
  unfolding coherent_def
  using unites_foldl_ajouter [of stock ds] invariant_foldl_ajouter [of stock ds] by blast

lemma coherent_colis_brut: "coherent stock \<Longrightarrow> coherent (snd (snd (colis_brut stock ds)))"
  unfolding coherent_def
  using unites_colis_brut [of stock ds] invariant_colis_brut [of stock ds] by blast

lemma inventaire_traiter_arrivage:
  "inventaire (snd (traiter_arrivage g texte)) = foldl ajouter (inventaire g) (parser texte)"
  by (simp add: traiter_arrivage_def Let_def)

lemma coherent_gestionnaire_init: "coherent (inventaire (snd (gestionnaire_init arrivage_init)))"
proof -
  have n: "coherent (inventaire \<lparr>inventaire = inventaire_init systeme_alerte_init\<rparr>)"
    using coherent_neuf by (simp add: inventaire_neuf_def)
  show ?thesis
  proof (cases arrivage_init)
    case None
    then show ?thesis using n by (simp add: gestionnaire_init_def)
  next
    case (Some texte)
    show ?thesis
    proof (cases "texte = []")
      case True
      with Some show ?thesis using n by (simp add: gestionnaire_init_def)
    next
      case False
      with Some show ?thesis
        using coherent_foldl_ajouter [OF n, of "parser texte"]
        by (simp add: gestionnaire_init_def inventaire_traiter_arrivage)
    qed
  qed
qed

lemma coherent_traiter_commande:
  assumes "coherent (inventaire g)"
  shows "coherent (inventaire (snd (snd (traiter_commande g texte strict))))"
proof (cases "strict \<and> \<not> fst (verifier_faisabilite (inventaire g) (parser texte))")
  case True
  then show ?thesis using assms traiter_commande_rejet(2) [of g texte] by simp
next
  case False
  then have "strict \<longrightarrow> fst (verifier_faisabilite (inventaire g) (parser texte))" by blast
  from traiter_commande_assemble(2) [OF this] show ?thesis
    using coherent_colis_brut [OF assms] by simp
qed

lemma coherent_executer: "coherent (inventaire g) \<Longrightarrow> coherent (inventaire (executer g op))"
  by (cases op)
     (simp_all add: inventaire_traiter_arrivage coherent_foldl_ajouter coherent_traiter_commande)

lemma coherent_foldl_executer:
  "coherent (inventaire g) \<Longrightarrow> coherent (inventaire (foldl executer g ops))"
  by (induction ops arbitrary: g) (simp_all add: coherent_executer)

lemma coherent_etat_apres: "coherent (inventaire (etat_apres arrivage_init ops))"
  unfolding etat_apres_def
  by (rule coherent_foldl_executer [OF coherent_gestionnaire_init])

lemma count_trier: "count_list (trier_par_volume xs) u = count_list xs u"
  using mset_py_sort_reverse [of extraire_vol xs]
  by (metis count_mset trier_par_volume_def)

lemma length_trier: "length (trier_par_volume xs) = length xs"
  using mset_py_sort_reverse [of extraire_vol xs]
  by (metis size_mset trier_par_volume_def)

lemma set_trier: "set (trier_par_volume xs) = set xs"
  using mset_py_sort_reverse [of extraire_vol xs]
  by (metis set_mset_mset trier_par_volume_def)

text \<open>
  Claim C6, amended.  In every state the manager reaches from its construction (with or without
  an arrival text) by arrivals, orders of either strategy and status displays, and for
  every order text: when the feasibility check on the current ledger succeeds, every
  call of \<open>sortir\<close> made by the strict order returns the demanded unit (none returns
  \<open>None\<close>), the package has as many units as the demand has items, each product as
  often as it is demanded, and no backorder is logged.  A strict order returns a
  package shorter than its demand only when it is rejected, and the package is then
  empty; so a non-empty package shorter than its demand arises only when \<open>strict\<close> is
  false.
\<close>

theorem C6_commande_stricte_complete:
  "(fst (verifier_faisabilite (inventaire (etat_apres arrivage_init ops)) (parser texte)) \<longrightarrow>
      retours (inventaire (etat_apres arrivage_init ops)) (parser texte)
        = map Some (parser texte)
    \<and> length (fst (traiter_commande (etat_apres arrivage_init ops) texte True))
        = length (parser texte)
    \<and> (\<forall>u. count_list (fst (traiter_commande (etat_apres arrivage_init ops) texte True)) u
             = count_list (parser texte) u)
    \<and> (\<forall>m. Log_error m
             \<notin> set (fst (snd (traiter_commande (etat_apres arrivage_init ops) texte True)))))
   \<and> (length (fst (traiter_commande (etat_apres arrivage_init ops) texte True))
          < length (parser texte)
      \<longrightarrow> \<not> fst (verifier_faisabilite (inventaire (etat_apres arrivage_init ops))
                  (parser texte))
        \<and> fst (traiter_commande (etat_apres arrivage_init ops) texte True) = [])
   \<and> (fst (traiter_commande (etat_apres arrivage_init ops) texte strict) \<noteq> []
      \<and> length (fst (traiter_commande (etat_apres arrivage_init ops) texte strict))
          < length (parser texte)
      \<longrightarrow> \<not> strict)"
proof -
  let ?g = "etat_apres arrivage_init ops"
  let ?ds = "parser texte"
  have co: "coherent (inventaire ?g)" by (rule coherent_etat_apres)
  have main: "retours (inventaire ?g) ?ds = map Some ?ds
       \<and> fst (colis_brut (inventaire ?g) ?ds) = ?ds
       \<and> (\<forall>m. Log_error m \<notin> set (fst (snd (colis_brut (inventaire ?g) ?ds))))"
    if f: "fst (verifier_faisabilite (inventaire ?g) ?ds)"
  proof (rule colis_brut_complet)
    show "\<forall>p q. files (inventaire ?g) p = Some q \<longrightarrow> set q \<subseteq> {p}"
      using co by (simp add: coherent_def)
    show "\<forall>p. ledger (inventaire ?g) p \<le> int (longueur_file (inventaire ?g) p)"
      using co by (simp add: coherent_def)
    show "\<forall>p\<in>set ?ds. p \<noteq> []" by (simp add: parser_non_vide)
    show "\<forall>p\<in>set ?ds. int (count_list ?ds p) \<le> ledger (inventaire ?g) p"
      using f by (simp add: resultat_verifier_faisabilite)
  qed
  have pk: "fst (traiter_commande ?g texte True) = trier_par_volume ?ds"
    and so: "fst (snd (traiter_commande ?g texte True))
               = fst (snd (verifier_faisabilite (inventaire ?g) ?ds))
                 @ fst (snd (colis_brut (inventaire ?g) ?ds))"
    if f: "fst (verifier_faisabilite (inventaire ?g) ?ds)"
    using f main [OF f] etat_verifier_faisabilite [of "inventaire ?g" ?ds]
    by (auto simp: traiter_commande_def assembler_colis_def Let_def split: prod.splits)
  have nomsg: "\<forall>m. Log_error m \<notin> set (fst (snd (faisabilite_boucle stock bs poss)))"
    for stock bs poss
  proof (induction bs arbitrary: poss)
    case Nil
    then show ?case by simp
  next
    case (Cons b bs)
    obtain p q where b: "b = (p, q)" by (cases b)
    show ?case unfolding b faisabilite_boucle_Cons using Cons.IH by simp
  qed
  have first: "retours (inventaire ?g) ?ds = map Some ?ds
    \<and> length (fst (traiter_commande ?g texte True)) = length ?ds
    \<and> (\<forall>u. count_list (fst (traiter_commande ?g texte True)) u = count_list ?ds u)
    \<and> (\<forall>m. Log_error m \<notin> set (fst (snd (traiter_commande ?g texte True))))"
    if f: "fst (verifier_faisabilite (inventaire ?g) ?ds)"
    using main [OF f] nomsg [of "inventaire ?g" "Counter ?ds" True]
    by (simp add: pk [OF f] so [OF f] length_trier count_trier verifier_faisabilite_def)
  have second: "\<not> fst (verifier_faisabilite (inventaire ?g) ?ds)
                 \<and> fst (traiter_commande ?g texte True) = []"
    if l: "length (fst (traiter_commande ?g texte True)) < length ?ds"
  proof -
    have nf: "\<not> fst (verifier_faisabilite (inventaire ?g) ?ds)"
    proof
      assume f: "fst (verifier_faisabilite (inventaire ?g) ?ds)"
      from first [OF f] l show False by simp
    qed
    from traiter_commande_rejet(1) [OF nf] nf show ?thesis by simp
  qed
  have third: "\<not> strict"
    if ne: "fst (traiter_commande ?g texte strict) \<noteq> []"
      and l: "length (fst (traiter_commande ?g texte strict)) < length ?ds"
  proof
    assume strict
    then have s: "strict = True" by simp
    from l have "length (fst (traiter_commande ?g texte True)) < length ?ds"
      unfolding s .
    from second [OF this] ne show False unfolding s by simp
  qed
  from first second third show ?thesis by blast
qed

text \<open>
  Counterexample to C6 as stated: the strict order of three \<open>A1\<close> on the reference
  stock, which holds two, is rejected, and its empty package is shorter than the
  demand although \<open>strict\<close> is true.
\<close>

theorem C6_commande_stricte_counterexample:
  "length (fst (traiter_commande (etat_apres (Some ''A1, A1, B2, C3, A3'') [])
                  ''A1, A1, A1'' True))
     < length (parser ''A1, A1, A1'')"
  by code_simp

lemma exemple_colis_partiel:
  "fst (traiter_commande (etat_apres (Some ''A1, A1, B2, C3, A3'') [])
          ''A1, A1, A1'' False) = [''A1'', ''A1'']"
  "length (parser ''A1, A1, A1'') = 3"
  by code_simp+


lemma exemple_faisable:
  "fst (verifier_faisabilite
          (inventaire (etat_apres (Some ''A1, A1, B2, C3, A3'')
             [Passer_commande ''A1, A1, A1'' False, Recevoir_arrivage ''A1, A1, A1'']))
          (parser ''A1, A1''))"
  by code_simp

lemma exemple_demande: "length (parser ''A1, A1'') = 2"
  by code_simp

text \<open>
  Witness for C6: after a partial order that leaves \<open>A1\<close> in debt and a new arrival of
  three \<open>A1\<close>, the strict order of two \<open>A1\<close> is feasible and delivers two units.
\<close>

theorem C6_commande_stricte_complete_witness:
  "length (fst (traiter_commande
      (etat_apres (Some ''A1, A1, B2, C3, A3'')
         [Passer_commande ''A1, A1, A1'' False, Recevoir_arrivage ''A1, A1, A1''])
      ''A1, A1'' True)) = 2"
proof -
  from C6_commande_stricte_complete
         [of "Some ''A1, A1, B2, C3, A3''"
             "[Passer_commande ''A1, A1, A1'' False, Recevoir_arrivage ''A1, A1, A1'']"
             "''A1, A1''" True]
       exemple_faisable
  have "length (fst (traiter_commande
      (etat_apres (Some ''A1, A1, B2, C3, A3'')
         [Passer_commande ''A1, A1, A1'' False, Recevoir_arrivage ''A1, A1, A1''])
      ''A1, A1'' True)) = length (parser ''A1, A1'')"
    by blast
  then show ?thesis by (simp only: exemple_demande)
qed

text \<open>
  Claim C10.  In every state the manager reaches by its public operations, every unit
  in the queue of a product is the identifier of that product; \<open>sortir(p)\<close> returns
  \<open>None\<close> or \<open>p\<close>; and every unit of a package returned by \<open>traiter_commande\<close> is one of
  the demand items of that call, no more often in the package than in the demand.
\<close>

theorem C10_unites:
  "(\<forall>p q. files (inventaire (etat_apres arrivage_init ops)) p = Some q
            \<longrightarrow> (\<forall>u\<in>set q. u = p))
   \<and> (fst (sortir (inventaire (etat_apres arrivage_init ops)) p) = None
      \<or> fst (sortir (inventaire (etat_apres arrivage_init ops)) p) = Some p)
   \<and> set (fst (traiter_commande (etat_apres arrivage_init ops) texte strict))
        \<subseteq> set (parser texte)
   \<and> (\<forall>u. count_list (fst (traiter_commande (etat_apres arrivage_init ops) texte strict)) u
           \<le> count_list (parser texte) u)"
proof -
  let ?g = "etat_apres arrivage_init ops"
  let ?ds = "parser texte"
  have co: "coherent (inventaire ?g)" by (rule coherent_etat_apres)
  then have un: "\<forall>p q. files (inventaire ?g) p = Some q \<longrightarrow> set q \<subseteq> {p}"
    by (simp add: coherent_def)
  then have a: "\<forall>p q. files (inventaire ?g) p = Some q \<longrightarrow> (\<forall>u\<in>set q. u = p)"
    by blast
  have b: "fst (sortir (inventaire ?g) p) = None \<or> fst (sortir (inventaire ?g) p) = Some p"
    by (rule retour_sortir [OF un])
  have d: "\<forall>u. count_list (fst (traiter_commande ?g texte strict)) u \<le> count_list ?ds u"
  proof (cases "strict \<and> \<not> fst (verifier_faisabilite (inventaire ?g) ?ds)")
    case True
    then show ?thesis using traiter_commande_rejet(1) [of ?g texte] by simp
  next
    case False
    then have "strict \<longrightarrow> fst (verifier_faisabilite (inventaire ?g) ?ds)" by blast
    from traiter_commande_assemble(1) [OF this] show ?thesis
      using count_colis_brut [OF un, of ?ds] by (simp add: count_trier)
  qed
  have c: "set (fst (traiter_commande ?g texte strict)) \<subseteq> set ?ds"
  proof
    fix u assume "u \<in> set (fst (traiter_commande ?g texte strict))"
    then have "count_list (fst (traiter_commande ?g texte strict)) u \<noteq> 0"
      by (simp add: count_list_0_iff)
    with d have "count_list ?ds u \<noteq> 0"
      by (metis le_zero_eq)
    then show "u \<in> set ?ds" by (simp add: count_list_0_iff)
  qed
  from a b c d show ?thesis by blast
qed

lemma exemple_sortie:
  "fst (sortir (inventaire (etat_apres (Some ''A1, A1, B2, C3, A3'') [])) ''A1'') \<noteq> None"
  by code_simp

text \<open>
  Witness for C10: on the reference stock \<open>sortir\<close> of \<open>A1\<close> returns \<open>A1\<close>.
\<close>

theorem C10_unites_witness:
  "fst (sortir (inventaire (etat_apres (Some ''A1, A1, B2, C3, A3'') [])) ''A1'') = Some ''A1''"
  using C10_unites [of "Some ''A1, A1, B2, C3, A3''" "[]" "''A1''" "''A1''" True]
        exemple_sortie
  by blast


section \<open>The alert buffer stays well formed\<close>

lemma alerte_ok_derouler:
  "alerte_ok (alerteur stock) \<Longrightarrow> alerte_ok (alerteur (derouler stock appels))"
proof (induction appels arbitrary: stock)
  case Nil
  then show ?case by (simp add: derouler_def)
next
  case (Cons a appels)
  have step: "derouler stock (a # appels) = derouler (appliquer stock a) appels"
    by (simp add: derouler_def)
  have "alerte_ok (alerteur (appliquer stock a))"
    using Cons.prems by (cases a) (simp_all add: alerte_ok_ajouter alerte_ok_sortir)
  then show ?case unfolding step by (rule Cons.IH)
qed

lemma alerte_ok_foldl_ajouter:
  "alerte_ok (alerteur stock) \<Longrightarrow> alerte_ok (alerteur (foldl ajouter stock ds))"
  by (induction ds arbitrary: stock) (simp_all add: alerte_ok_ajouter)

lemma alerte_ok_colis_brut:
  "alerte_ok (alerteur stock) \<Longrightarrow> alerte_ok (alerteur (snd (snd (colis_brut stock ds))))"
proof (induction ds arbitrary: stock)
  case Nil
  then show ?case by simp
next
  case (Cons d ds)
  show ?case
    unfolding colis_brut_Cons
    by (rule Cons.IH [OF alerte_ok_sortir [OF Cons.prems]])
qed

lemma alerte_ok_traiter_commande:
  assumes "alerte_ok (alerteur (inventaire g))"
  shows "alerte_ok (alerteur (inventaire (snd (snd (traiter_commande g texte strict)))))"
proof (cases "strict \<and> \<not> fst (verifier_faisabilite (inventaire g) (parser texte))")
  case True
  then show ?thesis using assms traiter_commande_rejet(2) [of g texte] by simp
next
  case False
  then have "strict \<longrightarrow> fst (verifier_faisabilite (inventaire g) (parser texte))" by blast
  from traiter_commande_assemble(2) [OF this] show ?thesis
    using alerte_ok_colis_brut [OF assms] by simp
qed

lemma alerte_ok_executer:
  "alerte_ok (alerteur (inventaire g)) \<Longrightarrow> alerte_ok (alerteur (inventaire (executer g op)))"
  by (cases op)
     (simp_all add: inventaire_traiter_arrivage alerte_ok_foldl_ajouter
        alerte_ok_traiter_commande)

lemma alerte_ok_gestionnaire_init:
  "alerte_ok (alerteur (inventaire (snd (gestionnaire_init arrivage_init))))"
proof -
  have n: "alerte_ok (alerteur (inventaire \<lparr>inventaire = inventaire_init systeme_alerte_init\<rparr>))"
    using alerte_ok_neuf by (simp add: inventaire_neuf_def)
  show ?thesis
  proof (cases arrivage_init)
    case None
    then show ?thesis using n by (simp add: gestionnaire_init_def)
  next
    case (Some texte)
    show ?thesis
    proof (cases "texte = []")
      case True
      with Some show ?thesis using n by (simp add: gestionnaire_init_def)
    next
      case False
      with Some show ?thesis
        using alerte_ok_foldl_ajouter [OF n, of "parser texte"]
        by (simp add: gestionnaire_init_def inventaire_traiter_arrivage)
    qed
  qed
qed

lemma alerte_ok_etat_apres:
  "alerte_ok (alerteur (inventaire (etat_apres arrivage_init ops)))"
proof -
  have "alerte_ok (alerteur (inventaire g))
        \<Longrightarrow> alerte_ok (alerteur (inventaire (foldl executer g ops)))" for g
    by (induction ops arbitrary: g) (simp_all add: alerte_ok_executer)
  from this [OF alerte_ok_gestionnaire_init] show ?thesis
    by (simp add: etat_apres_def)
qed

section \<open>The compliance scenario of the program\<close>

lemma scenario_de_conformite:
  "fst (traiter_commande (etat_apres (Some ''A1, A1, B2, C3, A3'') []) ''A1, A1, A1'' True) = []"
  "fst (traiter_commande
          (etat_apres (Some ''A1, A1, B2, C3, A3'') [Passer_commande ''A1, A1, A1'' True])
          ''A1, A1, A1'' False) = [''A1'', ''A1'']"
  "ledger (inventaire (etat_apres (Some ''A1, A1, B2, C3, A3'')
             [Passer_commande ''A1, A1, A1'' True, Passer_commande ''A1, A1, A1'' False]))
          ''A1'' = - 1"
  by code_simp+

end
